theory Spec2Isabelle
  imports Complex_Main "HOL-Library.Sublist" "HOL-Library.Option_ord"
begin

text \<open>
  A shallow embedding of the orchestration core of Evolve-UI: the similarity engine, the
  memory store, the search orchestrator, the search-backend adapter and the content
  extractor. Two server variants are in the repository: the current server (version
  2.2.0), called the core variant here, and the older \<^verbatim>\<open>server.js\<close>, called the legacy
  variant; a definition without suffix embeds the core variant, a definition ending in
  \<open>_legacy\<close> the function of the same name in \<^verbatim>\<open>server.js\<close>.

  The external collaborators (embedding service, generation backend, search backend,
  web pages, the HTML library, the file system) are parameters: each call is given by
  the outcome it returns, which is either an exception or a value.
\<close>

section \<open>JavaScript values\<close>

text \<open>An exception, with the \<^verbatim>\<open>name\<close> and \<^verbatim>\<open>message\<close> of the error object.\<close>

datatype js_error = JsError (error_name: string) (error_message: string)

text \<open>
  An argument that the source tests with \<^verbatim>\<open>Array.isArray\<close>: either an array or
  some other value (null, undefined, an object that is no array).
\<close>

datatype 'a js_arg = JArray "'a list" | JOther

subsection \<open>Numbers\<close>

text \<open>
  A number is an IEEE 754 double: a finite value, given by the real it denotes,
  \<^verbatim>\<open>NaN\<close> or an infinity. An operation on finite numbers returns the exact result
  rounded to the nearest double, ties to even, and an infinity when the exact result
  overflows.

  \<open>round53\<close> rounds a real to 53 significant bits: \<open>ulp x\<close> is the distance of the
  doubles around \<open>x\<close>, which is \<^verbatim>\<open>2^(e-52)\<close> when \<open>\<bar>x\<bar>\<close> is between \<^verbatim>\<open>2^e\<close> and
  \<^verbatim>\<open>2^(e+1)\<close>, and \<^verbatim>\<open>2^(-1074)\<close> below \<^verbatim>\<open>2^(-1022)\<close> (the subnormal numbers, so a
  small result may round to zero); the rounded value is the multiple of \<open>ulp x\<close> nearest
  to \<open>x\<close>, the even multiple when \<open>x\<close> is half way between two. A result overflows when
  it rounds to \<^verbatim>\<open>2^1024\<close> or beyond, that is when its magnitude is at least
  \<^verbatim>\<open>2^1024 - 2^970\<close>.

  The sign of zero is not modelled: the comparisons of the source do not tell the two
  zeros apart, and the sign matters only to a division by a zero, which takes the
  divisor as the positive zero here.
\<close>

datatype jsnum = Num real | NaN | PosInf | NegInf

definition inf_of_sign :: "real \<Rightarrow> jsnum" where
  "inf_of_sign s = (if s = 0 then NaN else if 0 < s then PosInf else NegInf)"

definition round_even :: "real \<Rightarrow> int" where
  "round_even y =
     (let f = \<lfloor>y\<rfloor> in
      if y - of_int f < 1 / 2 then f
      else if 1 / 2 < y - of_int f then f + 1
      else if even f then f else f + 1)"

definition ulp_exponent :: "real \<Rightarrow> int" where
  "ulp_exponent x = max (\<lfloor>log 2 \<bar>x\<bar>\<rfloor> - 52) (- 1074)"

definition ulp :: "real \<Rightarrow> real" where
  "ulp x = 2 powr of_int (ulp_exponent x)"

definition round53 :: "real \<Rightarrow> real" where
  "round53 x = (if x = 0 then 0 else of_int (round_even (x / ulp x)) * ulp x)"

definition overflow_threshold :: real where
  "overflow_threshold = 2 ^ 1024 - 2 ^ 970"

text \<open>The double for an exact result, and for a decimal literal of the source.\<close>

definition fl :: "real \<Rightarrow> jsnum" where
  "fl x = (if overflow_threshold \<le> \<bar>x\<bar> then inf_of_sign x else Num (round53 x))"

fun jneg :: "jsnum \<Rightarrow> jsnum" where
  "jneg (Num x) = Num (- x)"
| "jneg NaN = NaN"
| "jneg PosInf = NegInf"
| "jneg NegInf = PosInf"

fun jadd :: "jsnum \<Rightarrow> jsnum \<Rightarrow> jsnum" where
  "jadd (Num x) (Num y) = fl (x + y)"
| "jadd NaN _ = NaN"
| "jadd _ NaN = NaN"
| "jadd PosInf NegInf = NaN"
| "jadd NegInf PosInf = NaN"
| "jadd PosInf _ = PosInf"
| "jadd _ PosInf = PosInf"
| "jadd NegInf _ = NegInf"
| "jadd _ NegInf = NegInf"

definition jsub :: "jsnum \<Rightarrow> jsnum \<Rightarrow> jsnum" where
  "jsub a b = jadd a (jneg b)"

fun jmul :: "jsnum \<Rightarrow> jsnum \<Rightarrow> jsnum" where
  "jmul (Num x) (Num y) = fl (x * y)"
| "jmul NaN _ = NaN"
| "jmul _ NaN = NaN"
| "jmul PosInf (Num y) = inf_of_sign y"
| "jmul (Num x) PosInf = inf_of_sign x"
| "jmul NegInf (Num y) = inf_of_sign (- y)"
| "jmul (Num x) NegInf = inf_of_sign (- x)"
| "jmul PosInf PosInf = PosInf"
| "jmul NegInf NegInf = PosInf"
| "jmul PosInf NegInf = NegInf"
| "jmul NegInf PosInf = NegInf"

text \<open>Division never raises: a zero divisor gives \<^verbatim>\<open>NaN\<close> (0/0) or an infinity.\<close>

fun jdiv :: "jsnum \<Rightarrow> jsnum \<Rightarrow> jsnum" where
  "jdiv (Num x) (Num y) = (if y = 0 then inf_of_sign x else fl (x / y))"
| "jdiv NaN _ = NaN"
| "jdiv _ NaN = NaN"
| "jdiv (Num x) _ = Num 0"
| "jdiv PosInf (Num y) = (if 0 \<le> y then PosInf else NegInf)"
| "jdiv NegInf (Num y) = (if 0 \<le> y then NegInf else PosInf)"
| "jdiv _ _ = NaN"

text \<open>\<^verbatim>\<open>Math.sqrt\<close>, which rounds correctly.\<close>

fun jsqrt :: "jsnum \<Rightarrow> jsnum" where
  "jsqrt (Num x) = (if x < 0 then NaN else fl (sqrt x))"
| "jsqrt PosInf = PosInf"
| "jsqrt _ = NaN"

text \<open>
  \<^verbatim>\<open>x++\<close> on a finite number: the value becomes the double nearest to \<open>x + 1\<close> (adding
  1 to a finite double stays below the overflow threshold).
\<close>

definition js_increment :: "real \<Rightarrow> real" where
  "js_increment x = round53 (x + 1)"

text \<open>The comparisons \<^verbatim>\<open>a >= b\<close> and \<^verbatim>\<open>a > b\<close>: false whenever an operand is \<^verbatim>\<open>NaN\<close>.\<close>

fun jge :: "jsnum \<Rightarrow> jsnum \<Rightarrow> bool" where
  "jge (Num x) (Num y) = (y \<le> x)"
| "jge NaN _ = False"
| "jge _ NaN = False"
| "jge PosInf _ = True"
| "jge _ NegInf = True"
| "jge _ _ = False"

fun jgt :: "jsnum \<Rightarrow> jsnum \<Rightarrow> bool" where
  "jgt (Num x) (Num y) = (y < x)"
| "jgt NaN _ = False"
| "jgt _ NaN = False"
| "jgt PosInf PosInf = False"
| "jgt PosInf _ = True"
| "jgt NegInf _ = False"
| "jgt _ NegInf = True"
| "jgt _ _ = False"

subsection \<open>Arrays and defaults\<close>

text \<open>
  \<^verbatim>\<open>Array.prototype.sort(cmp)\<close> is a stable sort (ECMAScript 2019, Node 11 and later; the
  repository requires Node 18): an insertion sort that puts an element before the first
  element it does not compare greater than. A comparator result \<^verbatim>\<open>NaN\<close> counts as
  \<open>+0\<close>, as the language defines. For a consistent comparator every stable sort returns
  this list.
\<close>

fun cmp_le0 :: "jsnum \<Rightarrow> bool" where
  "cmp_le0 (Num v) = (v \<le> 0)"
| "cmp_le0 NaN = True"
| "cmp_le0 PosInf = False"
| "cmp_le0 NegInf = True"

fun insort_cmp :: "('a \<Rightarrow> 'a \<Rightarrow> jsnum) \<Rightarrow> 'a \<Rightarrow> 'a list \<Rightarrow> 'a list" where
  "insort_cmp cmp x [] = [x]"
| "insort_cmp cmp x (y # ys) =
     (if cmp_le0 (cmp x y) then x # y # ys else y # insort_cmp cmp x ys)"

definition js_sort :: "('a \<Rightarrow> 'a \<Rightarrow> jsnum) \<Rightarrow> 'a list \<Rightarrow> 'a list" where
  "js_sort cmp xs = foldr (insort_cmp cmp) xs []"

text \<open>\<^verbatim>\<open>xs.slice(0, k)\<close>: a negative \<open>k\<close> counts from the end.\<close>

definition js_slice0 :: "int \<Rightarrow> 'a list \<Rightarrow> 'a list" where
  "js_slice0 k xs =
     (if k < 0 then take (nat (int (length xs) + k)) xs else take (nat k) xs)"

text \<open>\<^verbatim>\<open>v || d\<close> for a value that may be missing, and for a string (the empty string is falsy).\<close>

definition or_default :: "'a option \<Rightarrow> 'a \<Rightarrow> 'a" where
  "or_default v d = (case v of Some x \<Rightarrow> x | None \<Rightarrow> d)"

definition str_or :: "string option \<Rightarrow> string \<Rightarrow> string" where
  "str_or v d = (case v of Some x \<Rightarrow> (if x = [] then d else x) | None \<Rightarrow> d)"

text \<open>Decimal rendering of a count, as a template literal renders a number.\<close>

fun string_of_nat :: "nat \<Rightarrow> string" where
  "string_of_nat n =
     (if n < 10 then [char_of (48 + n)]
      else string_of_nat (n div 10) @ [char_of (48 + n mod 10)])"

declare string_of_nat.simps [simp del]

section \<open>Similarity engine\<close>

text \<open>
  An embedding is an array of finite numbers. Reading \<^verbatim>\<open>a[i]\<close> beyond the end gives
  \<^verbatim>\<open>undefined\<close>, which a product turns into \<^verbatim>\<open>NaN\<close>.
\<close>

definition elem :: "real list \<Rightarrow> nat \<Rightarrow> jsnum" where
  "elem xs i = (if i < length xs then Num (xs ! i) else NaN)"

text \<open>
  The loop \<^verbatim>\<open>for (let i = 0; i < a.length; i++)\<close> of both variants, with its three
  accumulators (\<^verbatim>\<open>dotProduct, normA, normB\<close>; in \<^verbatim>\<open>server.js\<close> \<^verbatim>\<open>dp, na, nb\<close>).
\<close>

definition cos_step ::
  "real list \<Rightarrow> real list \<Rightarrow> nat \<Rightarrow> jsnum \<times> jsnum \<times> jsnum \<Rightarrow> jsnum \<times> jsnum \<times> jsnum" where
  "cos_step a b i acc =
     (case acc of (dotProduct, normA, normB) \<Rightarrow>
        (jadd dotProduct (jmul (elem a i) (elem b i)),
         jadd normA (jmul (elem a i) (elem a i)),
         jadd normB (jmul (elem b i) (elem b i))))"

definition cos_sums :: "real list \<Rightarrow> real list \<Rightarrow> jsnum \<times> jsnum \<times> jsnum" where
  "cos_sums a b = fold (cos_step a b) [0..<length a] (Num 0, Num 0, Num 0)"

text \<open>
  The core variant. An argument is an array or null/undefined (\<open>None\<close>); the guard
  returns before any property of a missing argument is read, and no statement of the
  function raises.
\<close>

definition cosSim :: "real list option \<Rightarrow> real list option \<Rightarrow> jsnum" where
  "cosSim a b =
     (case (a, b) of
        (Some av, Some bv) \<Rightarrow>
          if length av \<noteq> length bv then Num 0
          else (case cos_sums av bv of (dotProduct, normA, normB) \<Rightarrow>
                  (let denominator = jmul (jsqrt normA) (jsqrt normB)
                   in if denominator = Num 0 then Num 0 else jdiv dotProduct denominator))
      | _ \<Rightarrow> Num 0)"

text \<open>
  The legacy variant has no guard: \<^verbatim>\<open>a.length\<close> of a missing \<open>a\<close> raises, and so does
  \<^verbatim>\<open>b[0]\<close> of a missing \<open>b\<close> once the loop runs. Its divisor is
  \<^verbatim>\<open>Math.sqrt(na) * Math.sqrt(nb) + 1e-8\<close>.
\<close>

definition cosSim_legacy_divisor :: "jsnum \<Rightarrow> jsnum \<Rightarrow> jsnum" where
  "cosSim_legacy_divisor na nb = jadd (jmul (jsqrt na) (jsqrt nb)) (fl (1 / 10 ^ 8))"

definition cosSim_legacy :: "real list option \<Rightarrow> real list option \<Rightarrow> js_error + jsnum" where
  "cosSim_legacy a b =
     (case a of
        None \<Rightarrow> Inl (JsError ''TypeError'' ''Cannot read properties of undefined'')
      | Some av \<Rightarrow>
          if av \<noteq> [] \<and> b = None
          then Inl (JsError ''TypeError'' ''Cannot read properties of undefined'')
          else (case cos_sums av (case b of Some bv \<Rightarrow> bv | None \<Rightarrow> []) of (dp, na, nb) \<Rightarrow>
                  Inr (jdiv dp (cosSim_legacy_divisor na nb))))"

section \<open>Memory store\<close>

text \<open>
  The \<^verbatim>\<open>content\<close> of a candidate or of a stored item: a string, or a value of another
  kind. The source tests it for truthiness and calls its \<^verbatim>\<open>slice\<close> method, so the
  values that are no string are told apart by these two properties: \<open>NoContent\<close> is a
  falsy value (undefined, null, 0, \<^verbatim>\<open>NaN\<close>, false), \<open>ArrayContent\<close> an array, which has
  a \<^verbatim>\<open>slice\<close> method, and \<open>OtherContent\<close> a truthy value without one (a number, true, a
  plain object).
\<close>

datatype js_content = Str string | NoContent | ArrayContent | OtherContent

definition truthy :: "js_content \<Rightarrow> bool" where
  "truthy v = (case v of Str s \<Rightarrow> s \<noteq> [] | NoContent \<Rightarrow> False | _ \<Rightarrow> True)"

definition has_slice :: "js_content \<Rightarrow> bool" where
  "has_slice v = (case v of Str s \<Rightarrow> True | ArrayContent \<Rightarrow> True | _ \<Rightarrow> False)"

text \<open>
  A stored item; \<open>item_id\<close> and \<open>item_type\<close> are the fields \<^verbatim>\<open>id\<close> and \<^verbatim>\<open>type\<close>. The
  id is a finite number. The embedding is missing (\<open>None\<close>) when the field is null,
  undefined or no array.
\<close>

record memory_item =
  item_id :: real
  content :: js_content
  item_type :: string
  importance :: string
  tags :: "string list"
  timestamp :: string
  embedding :: "real list option"
  source :: string

text \<open>A retrieved item: \<^verbatim>\<open>{...item, similarity}\<close>.\<close>

record scored_item = memory_item +
  similarity :: jsnum

text \<open>The persisted collection; \<open>nextId\<close> is a finite number.\<close>

record memory =
  longTerm :: "memory_item list"
  nextId :: real

text \<open>
  The memory file: its parsed content, or \<open>None\<close> when it is missing or does not parse,
  and whether it can be written. \<open>writes\<close> records every document written to the file,
  in order. A write to a file that cannot be written raises and leaves the file as it
  was.
\<close>

record store =
  memoryFile :: "memory option"
  writable :: bool
  writes :: "memory list"

definition init_memory :: memory where
  "init_memory = \<lparr>longTerm = [], nextId = 1\<rparr>"

definition writeJSON :: "memory \<Rightarrow> store \<Rightarrow> (js_error + unit) \<times> store" where
  "writeJSON m st =
     (if writable st then (Inr (), st\<lparr>memoryFile := Some m, writes := writes st @ [m]\<rparr>)
      else (Inl (JsError ''Error'' ''EACCES: permission denied''), st))"

definition loadMemory :: "store \<Rightarrow> (js_error + memory) \<times> store" where
  "loadMemory st =
     (case memoryFile st of
        Some m \<Rightarrow> (Inr m, st)
      | None \<Rightarrow>
          (case writeJSON init_memory st of
             (Inl error, st') \<Rightarrow> (Inl error, st')
           | (Inr u, st') \<Rightarrow> (Inr init_memory, st')))"

definition saveMemory :: "memory \<Rightarrow> store \<Rightarrow> (js_error + unit) \<times> store" where
  "saveMemory m st = writeJSON m st"

text \<open>
  The embedding service answers a content with an exception or with a list of
  embeddings; \<open>nowISO n\<close> is the clock reading when the \<open>n\<close>-th item of a call is built.
\<close>

record memory_env =
  ollamaEmbed :: "js_content \<Rightarrow> js_error + real list list"
  nowISO :: "nat \<Rightarrow> string"

text \<open>The destructuring \<^verbatim>\<open>const [e] = await ollamaEmbed(text)\<close>.\<close>

definition first_embedding :: "real list list \<Rightarrow> real list option" where
  "first_embedding embs = (case embs of [] \<Rightarrow> None | e # _ \<Rightarrow> Some e)"

subsection \<open>Retrieval\<close>

definition score_items :: "real list \<Rightarrow> memory_item list \<Rightarrow> scored_item list" where
  "score_items queryEmbedding items =
     map (\<lambda>item. memory_item.extend item
            (scored_item.fields (cosSim (Some queryEmbedding) (embedding item))))
       (filter (\<lambda>item. embedding item \<noteq> None) items)"

text \<open>The comparator \<^verbatim>\<open>(a, b) => b.similarity - a.similarity\<close>.\<close>

definition by_similarity_desc :: "scored_item \<Rightarrow> scored_item \<Rightarrow> jsnum" where
  "by_similarity_desc a b = jsub (similarity b) (similarity a)"

text \<open>
  The body of the \<^verbatim>\<open>try\<close> block, then the function with its \<^verbatim>\<open>catch\<close>. The query is a
  string.
\<close>

definition retrieve_body ::
  "memory_env \<Rightarrow> store \<Rightarrow> string \<Rightarrow> int \<Rightarrow> real \<Rightarrow> (js_error + scored_item list) \<times> store" where
  "retrieve_body env st query k minSim =
     (case loadMemory st of
        (Inl error, st1) \<Rightarrow> (Inl error, st1)
      | (Inr memory, st1) \<Rightarrow>
          if longTerm memory = [] then (Inr [], st1)
          else (case ollamaEmbed env (Str query) of
                  Inl e \<Rightarrow> (Inl e, st1)
                | Inr embs \<Rightarrow>
                    (case first_embedding embs of
                       None \<Rightarrow> (Inr [], st1)
                     | Some queryEmbedding \<Rightarrow>
                         (Inr (js_slice0 k
                            (js_sort by_similarity_desc
                               (filter (\<lambda>item. jge (similarity item) (Num minSim))
                                  (score_items queryEmbedding (longTerm memory))))), st1))))"

definition retrieveLongTermMemory ::
  "memory_env \<Rightarrow> store \<Rightarrow> string \<Rightarrow> int \<Rightarrow> real \<Rightarrow> (js_error + scored_item list) \<times> store" where
  "retrieveLongTermMemory env st query k minSim =
     (case retrieve_body env st query k minSim of
        (Inl e, st') \<Rightarrow> (Inr [], st')
      | (Inr results, st') \<Rightarrow> (Inr results, st'))"

subsection \<open>Insertion\<close>

text \<open>
  A candidate: an object with a \<^verbatim>\<open>content\<close> and optional fields. In the list of
  candidates \<open>None\<close> is a null or a value that is no object.
\<close>

record candidate =
  c_content :: js_content
  c_type :: "string option"
  c_importance :: "string option"
  c_tags :: "string list option"
  c_source :: "string option"

text \<open>
  The inner loop over the stored items, left at the first near-duplicate. The literal
  \<^verbatim>\<open>0.95\<close> is the double nearest to it.
\<close>

fun duplicate_scan :: "real list \<Rightarrow> memory_item list \<Rightarrow> bool" where
  "duplicate_scan e [] = False"
| "duplicate_scan e (existing # rest) =
     (case embedding existing of
        Some v \<Rightarrow>
          if jgt (cosSim (Some e) (Some v)) (fl (95 / 100)) then True
          else duplicate_scan e rest
      | None \<Rightarrow> duplicate_scan e rest)"

text \<open>The embedding of a candidate: none when the service fails or returns no vector.\<close>

definition item_embedding :: "memory_env \<Rightarrow> js_content \<Rightarrow> real list option" where
  "item_embedding env c =
     (case ollamaEmbed env c of
        Inl embedError \<Rightarrow> None
      | Inr embs \<Rightarrow> first_embedding embs)"

text \<open>
  One round of the loop over the candidates, on the loaded memory and the items added.
  When the candidate is no duplicate the item is built and pushed, and then the
  arguments of the log call are evaluated, among them
  \<^verbatim>\<open>memoryItem.content.slice(0, 50)\<close>, which raises a \<^verbatim>\<open>TypeError\<close> for a content without
  a \<^verbatim>\<open>slice\<close> method. \<^verbatim>\<open>memory.nextId++\<close> gives the item the current \<open>nextId\<close> and stores
  the incremented number.
\<close>

definition upsert_step ::
  "memory_env \<Rightarrow> candidate option \<Rightarrow> memory \<times> memory_item list
     \<Rightarrow> js_error + memory \<times> memory_item list" where
  "upsert_step env cand acc =
     (case acc of (mem, added) \<Rightarrow>
       (case cand of
          None \<Rightarrow> Inr (mem, added)
        | Some c \<Rightarrow>
            if \<not> truthy (c_content c) then Inr (mem, added)
            else
              (let emb = item_embedding env (c_content c);
                   isDuplicate =
                     (case emb of
                        Some e \<Rightarrow> longTerm mem \<noteq> [] \<and> duplicate_scan e (longTerm mem)
                      | None \<Rightarrow> False)
               in if isDuplicate then Inr (mem, added)
                  else
                    (let memoryItem =
                       \<lparr>item_id = nextId mem,
                        content = c_content c,
                        item_type = str_or (c_type c) ''general'',
                        importance = str_or (c_importance c) ''medium'',
                        tags = or_default (c_tags c) [],
                        timestamp = nowISO env (length added),
                        embedding = emb,
                        source = str_or (c_source c) ''system''\<rparr>
                     in if has_slice (c_content c)
                        then Inr (mem\<lparr>longTerm := longTerm mem @ [memoryItem],
                                      nextId := js_increment (nextId mem)\<rparr>,
                                  added @ [memoryItem])
                        else Inl (JsError ''TypeError''
                                    ''memoryItem.content.slice is not a function'')))))"

text \<open>The loop \<^verbatim>\<open>for (const item of memoryItems)\<close>, which an exception leaves.\<close>

fun upsert_loop ::
  "memory_env \<Rightarrow> candidate option list \<Rightarrow> memory \<times> memory_item list
     \<Rightarrow> js_error + memory \<times> memory_item list" where
  "upsert_loop env [] acc = Inr acc"
| "upsert_loop env (cand # cands) acc =
     (case upsert_step env cand acc of
        Inl error \<Rightarrow> Inl error
      | Inr acc' \<Rightarrow> upsert_loop env cands acc')"

text \<open>The body of the \<^verbatim>\<open>try\<close> block, then the function with its \<^verbatim>\<open>catch\<close>.\<close>

definition upsert_body ::
  "memory_env \<Rightarrow> store \<Rightarrow> candidate option js_arg \<Rightarrow> (js_error + memory_item list) \<times> store" where
  "upsert_body env st memoryItems =
     (case memoryItems of
        JOther \<Rightarrow> (Inr [], st)
      | JArray cands \<Rightarrow>
          if cands = [] then (Inr [], st)
          else
            (case loadMemory st of
               (Inl error, st1) \<Rightarrow> (Inl error, st1)
             | (Inr mem0, st1) \<Rightarrow>
                 (case upsert_loop env cands (mem0, []) of
                    Inl error \<Rightarrow> (Inl error, st1)
                  | Inr (mem, added) \<Rightarrow>
                      if added \<noteq> [] then
                        (case saveMemory mem st1 of
                           (Inl error, st2) \<Rightarrow> (Inl error, st2)
                         | (Inr u, st2) \<Rightarrow> (Inr added, st2))
                      else (Inr added, st1))))"

definition upsertLongTermMemory ::
  "memory_env \<Rightarrow> store \<Rightarrow> candidate option js_arg \<Rightarrow> (js_error + memory_item list) \<times> store" where
  "upsertLongTermMemory env st memoryItems =
     (case upsert_body env st memoryItems of
        (Inl e, st') \<Rightarrow> (Inr [], st')
      | (Inr added, st') \<Rightarrow> (Inr added, st'))"

section \<open>Strings\<close>

text \<open>
  A string is a list of 8-bit characters: the code units below 256. The character
  classes of the source are restricted to them: \<^verbatim>\<open>\s\<close> and \<^verbatim>\<open>trim\<close> also cover
  white space beyond U+00FF, the dot of a regular expression also excludes U+2028 and
  U+2029, and the bullet class of the query parser, which the source file holds as the
  five characters \<^verbatim>\<open>-\<close>, U+00E2, U+20AC, U+00A2 and \<^verbatim>\<open>*\<close>, also has U+20AC.
\<close>

definition newline :: char where
  "newline = CHR 0x0A"


definition is_space :: "char \<Rightarrow> bool" where
  "is_space c \<longleftrightarrow>
     c \<in> set [CHR 0x09, CHR 0x0A, CHR 0x0B, CHR 0x0C, CHR 0x0D, CHR 0x20, CHR 0xA0]"



text \<open>\<^verbatim>\<open>s.trim()\<close>, \<^verbatim>\<open>s.split(sep)\<close>, \<^verbatim>\<open>s.startsWith(p)\<close>, \<^verbatim>\<open>s.includes(p)\<close>.\<close>

definition js_trim :: "string \<Rightarrow> string" where
  "js_trim s = rev (dropWhile is_space (rev (dropWhile is_space s)))"


definition startsWith :: "string \<Rightarrow> string \<Rightarrow> bool" where
  "startsWith s p \<longleftrightarrow> take (length p) s = p"

fun js_includes :: "string \<Rightarrow> string \<Rightarrow> bool" where
  "js_includes [] p = (p = [])"
| "js_includes (x # xs) p = (startsWith (x # xs) p \<or> js_includes xs p)"

text \<open>\<^verbatim>\<open>s.toLowerCase()\<close>: the letters A to Z and the capital letters of Latin-1.\<close>

definition lower_char :: "char \<Rightarrow> char" where
  "lower_char c =
     (let n = (of_char c :: nat) in
      if (65 \<le> n \<and> n \<le> 90) \<or> (192 \<le> n \<and> n \<le> 222 \<and> n \<noteq> 215)
      then char_of (n + 32) else c)"

definition toLowerCase :: "string \<Rightarrow> string" where
  "toLowerCase s = map lower_char s"

text \<open>\<^verbatim>\<open>s.replace(/\s+/g, ' ')\<close>: every maximal run of white space becomes one space.\<close>

function collapse_ws :: "string \<Rightarrow> string" where
  "collapse_ws [] = []"
| "collapse_ws (c # cs) =
     (if is_space c then CHR '' '' # collapse_ws (dropWhile is_space cs)
      else c # collapse_ws cs)"
  by pat_completeness auto
termination
  by (relation "measure length") (auto simp: less_Suc_eq_le length_dropWhile_le)




section \<open>Search orchestrator\<close>

subsection \<open>The continuation decision\<close>

text \<open>
  \<^verbatim>\<open>SmartWebSearch.shouldContinueSearching(query, currentResults, complexity)\<close>.
  The returned object's \<^verbatim>\<open>thoughts\<close> field repeats \<^verbatim>\<open>reason\<close> with a
  timestamp and is left out; the \<^verbatim>\<open>catch\<close> branch guards a block in which nothing
  raises.
\<close>

record continue_decision =
  shouldContinue :: bool
  reason :: string
  confidence :: real
  resultCount :: nat

definition shouldContinueSearching ::
  "string \<Rightarrow> 'a js_arg \<Rightarrow> string \<Rightarrow> continue_decision" where
  "shouldContinueSearching query currentResults complexity =
     (let resultCount = (case currentResults of JArray rs \<Rightarrow> length rs | JOther \<Rightarrow> 0) in
      if resultCount = 0 then
        \<lparr>shouldContinue = True,
         reason = ''No results found, continue searching'',
         confidence = 0.9, resultCount = resultCount\<rparr>
      else if resultCount < 3 then
        (let sc = (complexity = ''high'') in
         \<lparr>shouldContinue = sc,
          reason = ''Found '' @ string_of_nat resultCount @ '' results, '' @
            (if sc then ''continue for more comprehensive coverage''
             else ''sufficient for basic query''),
          confidence = 0.7, resultCount = resultCount\<rparr>)
      else if resultCount < 8 then
        (let sc = (complexity = ''high'' \<and> resultCount < 5) in
         \<lparr>shouldContinue = sc,
          reason = ''Found '' @ string_of_nat resultCount @ '' results, '' @
            (if sc then ''continue for high complexity query''
             else ''sufficient coverage achieved''),
          confidence = 0.8, resultCount = resultCount\<rparr>)
      else
        \<lparr>shouldContinue = False,
         reason = ''Found '' @ string_of_nat resultCount @ '' results, sufficient coverage achieved'',
         confidence = 0.9, resultCount = resultCount\<rparr>)"

subsection \<open>Generating the query plan\<close>

















subsection \<open>Search-backend adapter\<close>


record search_result =
  title :: string
  url :: string
  snippet :: string

record 'b http_response =
  ok :: bool
  content_type :: "string option"
  body :: "js_error + 'b"













subsection \<open>Executing the query plan\<close>

text \<open>\<^verbatim>\<open>deduplicateSources\<close>: a filter that carries the set of keys seen so far.\<close>

fun dedup_filter :: "string set \<Rightarrow> search_result list \<Rightarrow> search_result list" where
  "dedup_filter seen [] = []"
| "dedup_filter seen (s # ss) =
     (let key = toLowerCase (url s)
      in if key \<in> seen then dedup_filter seen ss
         else s # dedup_filter (insert key seen) ss)"

definition deduplicateSources :: "search_result list \<Rightarrow> search_result list" where
  "deduplicateSources sources = dedup_filter {} sources"

text \<open>
  \<^verbatim>\<open>executeSearches(queries, options)\<close>. The adapter, with the options of the call, is
  the parameter \<open>search\<close>. The field \<open>calls\<close> is not in the source: it records the
  queries the adapter was called with, in order.
\<close>

record search_round =
  round_query :: string
  round_results :: "search_result list"
  round_count :: nat

record search_execution =
  searchResults :: "search_round list"
  allSources :: "search_result list"
  totalSources :: nat
  calls :: "string list"

definition search_step ::
  "(string \<Rightarrow> js_error + search_result list) \<Rightarrow> string
     \<Rightarrow> search_round list \<times> search_result list \<times> string list
     \<Rightarrow> search_round list \<times> search_result list \<times> string list" where
  "search_step search query acc =
     (case acc of (results, sources, called) \<Rightarrow>
        (case search query of
           Inl error \<Rightarrow> (results, sources, called @ [query])
         | Inr found \<Rightarrow>
             if found \<noteq> []
             then (results @ [\<lparr>round_query = query, round_results = found,
                                round_count = length found\<rparr>],
                   sources @ found, called @ [query])
             else (results, sources, called @ [query])))"

definition executeSearches ::
  "(string \<Rightarrow> js_error + search_result list) \<Rightarrow> string list \<Rightarrow> search_execution" where
  "executeSearches search qs =
     (case fold (search_step search) qs ([], [], []) of (results, sources, called) \<Rightarrow>
        \<lparr>searchResults = results,
         allSources = deduplicateSources sources,
         totalSources = length sources,
         calls = called\<rparr>)"

section \<open>Content extractor\<close>

text \<open>
  The page is fetched and handed to the HTML library, which is a parameter: given the
  selectors to remove, the selector of the main content and the markup, it returns the
  text of the first main element, or of the body. The two variants differ in their
  selectors and in the cap.
\<close>

record page_env =
  fetch_page :: "string \<Rightarrow> js_error + string http_response"
  cheerio_text :: "string list \<Rightarrow> string \<Rightarrow> string \<Rightarrow> js_error + string"

definition clean_page ::
  "page_env \<Rightarrow> string list \<Rightarrow> string \<Rightarrow> int \<Rightarrow> string \<Rightarrow> js_error + string" where
  "clean_page env removed main cap u =
     (case fetch_page env u of
        Inl error \<Rightarrow> Inr []
      | Inr res \<Rightarrow>
          if \<not> ok res then Inr []
          else if \<not> js_includes (str_or (content_type res) []) ''text/html'' then Inr []
          else (case body res of
                  Inl error \<Rightarrow> Inr []
                | Inr html \<Rightarrow>
                    (case cheerio_text env removed main html of
                       Inl error \<Rightarrow> Inr []
                     | Inr text \<Rightarrow> Inr (js_slice0 cap (js_trim (collapse_ws text))))))"

definition fetchAndClean :: "page_env \<Rightarrow> string \<Rightarrow> js_error + string" where
  "fetchAndClean env u =
     clean_page env
       [''script, style, noscript, nav, footer, aside, header'',
        ''.advertisement, .ads, .popup, .sidebar, .menu'']
       ''main, article, .content, .post, .entry, [role=\"main\"]'' 20000 u"

definition fetchAndClean_legacy :: "page_env \<Rightarrow> string \<Rightarrow> js_error + string" where
  "fetchAndClean_legacy env u =
     clean_page env
       [''script, style, noscript, nav, footer, aside, .advertisement, .ads, .popup'']
       ''main, article, .content, .post, .entry'' 15000 u"

section \<open>Notions used in the statements\<close>

text \<open>
  The sum of the squares of a vector as the loop of \<^verbatim>\<open>cosSim\<close> accumulates it, in double
  precision and in the order of the entries: the value of \<^verbatim>\<open>normB\<close> (\<^verbatim>\<open>nb\<close>) after the
  loop, when the first vector has the length of the second.
\<close>

definition squared_norm :: "real list \<Rightarrow> jsnum" where
  "squared_norm v = fold (\<lambda>x acc. jadd acc (jmul (Num x) (Num x))) v (Num 0)"

text \<open>
  The collection that loading gives when it succeeds: the content of the memory file, or
  the initial collection when the file is missing or does not parse.
\<close>

definition loaded :: "store \<Rightarrow> memory" where
  "loaded st = (case memoryFile st of Some m \<Rightarrow> m | None \<Rightarrow> init_memory)"

text \<open>
  A candidate is a near-duplicate when its embedding exists and is more than 0.95
  similar to the embedding of a stored item.
\<close>

definition is_duplicate :: "memory_env \<Rightarrow> candidate \<Rightarrow> memory_item list \<Rightarrow> bool" where
  "is_duplicate env c items \<longleftrightarrow>
     (\<exists>e. item_embedding env (c_content c) = Some e \<and>
        (\<exists>x \<in> set items. \<exists>v. embedding x = Some v \<and>
           jgt (cosSim (Some e) (Some v)) (fl (95 / 100))))"

text \<open>The item that insertion builds from a candidate, as the \<open>n\<close>-th item of a call.\<close>

definition new_item :: "memory_env \<Rightarrow> candidate \<Rightarrow> memory \<Rightarrow> nat \<Rightarrow> memory_item" where
  "new_item env c mem n =
     \<lparr>item_id = nextId mem,
      content = c_content c,
      item_type = str_or (c_type c) ''general'',
      importance = str_or (c_importance c) ''medium'',
      tags = or_default (c_tags c) [],
      timestamp = nowISO env n,
      embedding = item_embedding env (c_content c),
      source = str_or (c_source c) ''system''\<rparr>"

text \<open>
  The collection after the items \<open>added\<close> were appended, each taking the current
  \<open>nextId\<close>.
\<close>

definition grown :: "memory \<Rightarrow> memory_item list \<Rightarrow> memory" where
  "grown mem added =
     mem\<lparr>longTerm := longTerm mem @ added,
         nextId := (js_increment ^^ length added) (nextId mem)\<rparr>"








text \<open>
  The results that a query contributes to the accumulated sources: none when the adapter
  raises.
\<close>

definition found_by ::
  "(string \<Rightarrow> js_error + search_result list) \<Rightarrow> string \<Rightarrow> search_result list" where
  "found_by search query = (case search query of Inl error \<Rightarrow> [] | Inr found \<Rightarrow> found)"



text \<open>
  A text has collapsed white space when each of its white-space characters is a space
  that no white space follows.
\<close>

fun collapsed :: "string \<Rightarrow> bool" where
  "collapsed [] = True"
| "collapsed [c] = (is_space c \<longrightarrow> c = CHR '' '')"
| "collapsed (c # d # cs) =
     ((is_space c \<longrightarrow> c = CHR '' '' \<and> \<not> is_space d) \<and> collapsed (d # cs))"

section \<open>Notions used in the proofs\<close>

text \<open>
  Every double is a multiple of the least positive double \<^verbatim>\<open>2^(-1074)\<close>. A number is
  representable when it is such a multiple or is not finite.
\<close>

definition tiny :: real where
  "tiny = 2 powr (- 1074)"

definition on_grid :: "real \<Rightarrow> bool" where
  "on_grid r = (\<exists>n::int. r = of_int n * tiny)"

definition representable :: "jsnum \<Rightarrow> bool" where
  "representable v = (case v of Num r \<Rightarrow> on_grid r | _ \<Rightarrow> True)"

text \<open>
  Invariant of the summation loop: a norm is a number that is not negative, the positive
  infinity or \<^verbatim>\<open>NaN\<close>.
\<close>

definition norm_like :: "jsnum \<Rightarrow> bool" where
  "norm_like x = (case x of Num r \<Rightarrow> 0 \<le> r | NegInf \<Rightarrow> False | _ \<Rightarrow> True)"

text \<open>
  Invariant of the loop on a zero vector and a vector of finite numbers: the norm of the
  second is a number that is not negative and came out of a rounding, or the positive
  infinity.
\<close>

definition norm_value :: "jsnum \<Rightarrow> bool" where
  "norm_value x = (case x of Num r \<Rightarrow> 0 \<le> r \<and> r \<le> 2 ^ 1026 | PosInf \<Rightarrow> True | _ \<Rightarrow> False)"

text \<open>
  A similarity that passes the threshold test of retrieval is a representable number or
  the positive infinity. On these the comparator is consistent, and the sort is the
  stable sort by the key \<open>sim_key\<close>, which puts the infinity first.
\<close>

definition rankable :: "scored_item \<Rightarrow> bool" where
  "rankable r = (representable (similarity r) \<and> similarity r \<noteq> NaN \<and> similarity r \<noteq> NegInf)"

definition key_of :: "jsnum \<Rightarrow> real option" where
  "key_of s = (case s of Num v \<Rightarrow> Some (- v) | _ \<Rightarrow> None)"

definition sim_key :: "scored_item \<Rightarrow> real option" where
  "sim_key r = key_of (similarity r)"

definition retrieved :: "real list \<Rightarrow> memory_item list \<Rightarrow> real \<Rightarrow> scored_item list" where
  "retrieved q items minSim =
     sort_key sim_key
       (filter (\<lambda>item. jge (similarity item) (Num minSim)) (score_items q items))"

text \<open>The key by which sources are deduplicated.\<close>

definition url_key :: "search_result \<Rightarrow> string" where
  "url_key s = toLowerCase (url s)"

section \<open>Sample data\<close>

text \<open>The double that the literal \<^verbatim>\<open>1e200\<close> denotes.\<close>

definition ex_huge :: real where
  "ex_huge = round53 (10 ^ 200)"

definition ex_item :: "real \<Rightarrow> string \<Rightarrow> real list option \<Rightarrow> memory_item" where
  "ex_item i c e = \<lparr>item_id = i, content = Str c, item_type = ''general'',
     importance = ''medium'', tags = [], timestamp = ''t'', embedding = e, source = ''system''\<rparr>"

definition ex_env :: memory_env where
  "ex_env =
     \<lparr>ollamaEmbed = (\<lambda>c.
        if c = Str ''fail'' then Inl (JsError ''Error'' ''Embedding error: 500'')
        else if c = Str ''east'' then Inr [[0, 1]]
        else Inr [[1, 0]]),
      nowISO = (\<lambda>n. ''t'')\<rparr>"

definition ex_memory :: memory where
  "ex_memory =
     \<lparr>longTerm = [ex_item 1 ''a'' (Some [1, 0]), ex_item 2 ''b'' (Some [0, 1]),
        ex_item 3 ''c'' None, ex_item 4 ''d'' (Some [1, 0])],
      nextId = 5\<rparr>"

definition ex_store :: store where
  "ex_store = \<lparr>memoryFile = Some ex_memory, writable = True, writes = []\<rparr>"



definition ex_store_missing :: store where
  "ex_store_missing = \<lparr>memoryFile = None, writable = True, writes = []\<rparr>"




definition ex_candidate :: "string \<Rightarrow> candidate" where
  "ex_candidate c =
     \<lparr>c_content = Str c, c_type = None, c_importance = None, c_tags = None, c_source = None\<rparr>"




definition ex_source :: "string \<Rightarrow> string \<Rightarrow> search_result" where
  "ex_source t u = \<lparr>title = t, url = u, snippet = []\<rparr>"

definition ex_search :: "string \<Rightarrow> js_error + search_result list" where
  "ex_search q =
     (if q = ''bad'' then Inl (JsError ''URIError'' ''URI malformed'')
      else if q = ''a'' then Inr [ex_source ''X'' ''http://X.org'', ex_source ''Y'' ''http://y.org'']
      else Inr [ex_source ''x again'' ''http://x.org''])"

definition ex_page_env :: page_env where
  "ex_page_env =
     \<lparr>fetch_page = (\<lambda>u.
        if u = ''http://timeout'' then Inl (JsError ''AbortError'' ''This operation was aborted'')
        else if u = ''http://missing''
        then Inr \<lparr>ok = False, content_type = Some ''text/html'', body = Inr ''<p>no</p>''\<rparr>
        else if u = ''http://pdf''
        then Inr \<lparr>ok = True, content_type = Some ''application/pdf'', body = Inr ''%PDF''\<rparr>
        else Inr \<lparr>ok = True, content_type = Some ''text/html; charset=utf-8'',
                  body = Inr ''<main> a  b </main>''\<rparr>),
      cheerio_text = (\<lambda>removed main html. Inr ('' a'' @ [newline, newline] @ ''b   c  ''))\<rparr>"

section \<open>Properties of rounding\<close>

lemma ulp_pos: "0 < ulp x"
  by (simp add: ulp_def)

lemma round_even_upper: "of_int (round_even y) \<le> y + 1 / 2"
  unfolding round_even_def Let_def by (auto; linarith)

lemma round_even_lower: "y - 1 / 2 \<le> of_int (round_even y)"
  unfolding round_even_def Let_def by (auto; linarith)

lemma round_even_of_int: "round_even (of_int k) = k"
  by (simp add: round_even_def)

lemma round_even_nonneg: "0 \<le> y \<Longrightarrow> 0 \<le> round_even y"
  unfolding round_even_def Let_def by auto

lemma round_even_nonpos: "y \<le> 0 \<Longrightarrow> round_even y \<le> 0"
proof -
  assume y: "y \<le> 0"
  show ?thesis
  proof (cases "y = 0")
    case True
    then show ?thesis using round_even_of_int[of 0] by simp
  next
    case False
    then have "y < 0" using y by simp
    then have "\<lfloor>y\<rfloor> < 0" by (simp add: floor_less_iff)
    then show ?thesis unfolding round_even_def Let_def by auto
  qed
qed

lemma round_even_ge1: "1 \<le> y \<Longrightarrow> 1 \<le> round_even y"
proof -
  assume "1 \<le> y"
  then have "1 \<le> \<lfloor>y\<rfloor>" by (simp add: le_floor_iff)
  then show ?thesis unfolding round_even_def Let_def by auto
qed

lemma round_even_le_m1: "y \<le> -1 \<Longrightarrow> round_even y \<le> -1"
proof -
  assume y: "y \<le> -1"
  show ?thesis
  proof (cases "y = -1")
    case True
    then show ?thesis using round_even_of_int[of "-1"] by simp
  next
    case False
    then have "y < -1" using y by simp
    then have "\<lfloor>y\<rfloor> < -1" by (simp add: floor_less_iff)
    then show ?thesis unfolding round_even_def Let_def by auto
  qed
qed

lemma round53_zero [simp]: "round53 0 = 0"
  by (simp add: round53_def)

lemma round53_nonneg: "0 \<le> x \<Longrightarrow> 0 \<le> round53 x"
  using round_even_nonneg[of "x / ulp x"] ulp_pos[of x]
  by (simp add: round53_def)

lemma round53_nonpos: "x \<le> 0 \<Longrightarrow> round53 x \<le> 0"
proof -
  assume "x \<le> 0"
  then have "x / ulp x \<le> 0" using ulp_pos[of x] by (simp add: divide_nonpos_pos)
  then have "round_even (x / ulp x) \<le> 0" by (rule round_even_nonpos)
  then have "of_int (round_even (x / ulp x)) * ulp x \<le> 0"
    using ulp_pos[of x] by (simp add: mult_le_0_iff)
  then show ?thesis by (simp add: round53_def)
qed

lemma tiny_pos: "0 < tiny"
  by (simp add: tiny_def)

lemma ulp_le_abs:
  assumes "tiny \<le> \<bar>x\<bar>"
  shows "ulp x \<le> \<bar>x\<bar>"
proof -
  have x: "0 < \<bar>x\<bar>" using assms tiny_pos by linarith
  have "log 2 tiny \<le> log 2 \<bar>x\<bar>"
    using assms tiny_pos x by (simp add: log_le_cancel_iff)
  then have a: "- 1074 \<le> log 2 \<bar>x\<bar>" by (simp add: tiny_def)
  have b: "of_int (\<lfloor>log 2 \<bar>x\<bar>\<rfloor> - 52) \<le> log 2 \<bar>x\<bar>"
    by simp linarith
  have "of_int (ulp_exponent x) \<le> log 2 \<bar>x\<bar>"
    using a b unfolding ulp_exponent_def max_def by auto
  then have "2 powr of_int (ulp_exponent x) \<le> 2 powr log 2 \<bar>x\<bar>"
    by (simp add: powr_le_cancel_iff)
  then show ?thesis using x by (simp add: ulp_def)
qed

lemma round53_pos:
  assumes "tiny \<le> x"
  shows "0 < round53 x"
proof -
  have x: "0 < x" using assms tiny_pos by linarith
  have "ulp x \<le> x" using ulp_le_abs[of x] assms x by simp
  then have "1 \<le> x / ulp x" using ulp_pos[of x] by (simp add: le_divide_eq)
  then have "1 \<le> round_even (x / ulp x)" by (rule round_even_ge1)
  then have "0 < of_int (round_even (x / ulp x)) * ulp x"
    using ulp_pos[of x] by simp
  then show ?thesis using x by (simp add: round53_def)
qed

lemma round53_neg:
  assumes "x \<le> - tiny"
  shows "round53 x < 0"
proof -
  have x: "x < 0" using assms tiny_pos by linarith
  have "ulp x \<le> - x" using ulp_le_abs[of x] assms x by simp
  then have "x / ulp x \<le> - 1" using ulp_pos[of x] by (simp add: divide_le_eq)
  then have "round_even (x / ulp x) \<le> - 1" by (rule round_even_le_m1)
  then have "of_int (round_even (x / ulp x)) \<le> (- 1 :: real)"
    by (metis of_int_le_iff of_int_minus of_int_1)
  then have "of_int (round_even (x / ulp x)) * ulp x < 0"
    using ulp_pos[of x] by (simp add: mult_less_0_iff)
  then show ?thesis using x by (simp add: round53_def)
qed

lemma on_grid_zero: "on_grid 0"
  unfolding on_grid_def by (rule exI[of _ 0]) simp

lemma ulp_exponent_ge: "- 1074 \<le> ulp_exponent x"
  by (simp add: ulp_exponent_def)

lemma ulp_grid: "\<exists>m::int. ulp x = of_int m * tiny"
proof -
  define k where "k = nat (ulp_exponent x + 1074)"
  have "ulp_exponent x = int k - 1074"
    using ulp_exponent_ge[of x] by (simp add: k_def)
  then have "ulp x = 2 powr (of_int (int k) + (- 1074))"
    by (simp add: ulp_def)
  also have "\<dots> = 2 powr of_int (int k) * tiny"
    unfolding tiny_def by (rule powr_add)
  also have "\<dots> = of_int (2 ^ k) * tiny"
    by (simp add: powr_realpow)
  finally show ?thesis by blast
qed

lemma round53_on_grid: "on_grid (round53 x)"
proof (cases "x = 0")
  case True
  then show ?thesis by (simp add: on_grid_zero)
next
  case False
  obtain m :: int where m: "ulp x = of_int m * tiny" using ulp_grid by blast
  have "round53 x = of_int (round_even (x / ulp x) * m) * tiny"
    using False by (simp add: round53_def m)
  then show ?thesis unfolding on_grid_def by blast
qed

lemma on_grid_diff:
  assumes "on_grid a" "on_grid b" "a < b"
  shows "tiny \<le> b - a"
proof -
  obtain n m :: int where a: "a = of_int n * tiny" and b: "b = of_int m * tiny"
    using assms unfolding on_grid_def by blast
  have "of_int n * tiny < of_int m * tiny" using assms a b by simp
  then have "n < m" using tiny_pos by (simp add: mult_less_cancel_right)
  then have "1 \<le> m - n" by simp
  then have "(1::real) \<le> of_int (m - n)" by (metis of_int_1_le_iff)
  then have "1 * tiny \<le> of_int (m - n) * tiny"
    using tiny_pos by (intro mult_right_mono) simp_all
  then show ?thesis by (simp add: a b algebra_simps)
qed

lemma round_even_abs_err: "\<bar>of_int (round_even y) - y\<bar> \<le> 1 / 2"
  using round_even_upper[of y] round_even_lower[of y] by linarith

lemma round53_err: "\<bar>round53 x - x\<bar> \<le> ulp x / 2"
proof (cases "x = 0")
  case True
  then show ?thesis using ulp_pos[of x] by simp
next
  case False
  have "round53 x - x = (of_int (round_even (x / ulp x)) - x / ulp x) * ulp x"
    using False ulp_pos[of x] by (simp add: round53_def algebra_simps)
  then have "\<bar>round53 x - x\<bar> = \<bar>of_int (round_even (x / ulp x)) - x / ulp x\<bar> * ulp x"
    using ulp_pos[of x] by (simp add: abs_mult)
  also have "\<dots> \<le> (1 / 2) * ulp x"
    using round_even_abs_err[of "x / ulp x"] ulp_pos[of x]
    by (intro mult_right_mono) simp_all
  finally show ?thesis by simp
qed

lemma ulp_le_max:
  assumes "x \<noteq> 0"
  shows "ulp x \<le> max \<bar>x\<bar> tiny"
proof (cases "tiny \<le> \<bar>x\<bar>")
  case True
  then show ?thesis using ulp_le_abs[of x] by simp
next
  case False
  then have x: "\<bar>x\<bar> < tiny" by simp
  have "log 2 \<bar>x\<bar> < log 2 tiny" using x assms by (simp add: log_less_cancel_iff)
  then have "log 2 \<bar>x\<bar> < - 1074" by (simp add: tiny_def)
  then have "\<lfloor>log 2 \<bar>x\<bar>\<rfloor> < - 1074" by (simp add: floor_less_iff)
  then have "ulp_exponent x = - 1074" unfolding ulp_exponent_def by linarith
  then have "ulp x = tiny" by (simp add: ulp_def tiny_def)
  then show ?thesis by simp
qed

lemma round53_abs_le: "\<bar>round53 x\<bar> \<le> 2 * \<bar>x\<bar> + 1"
proof (cases "x = 0")
  case True
  then show ?thesis by simp
next
  case False
  have "tiny \<le> 2 powr 0" unfolding tiny_def by (intro powr_mono) simp_all
  then have t: "tiny \<le> 1" by simp
  have "\<bar>round53 x\<bar> \<le> \<bar>x\<bar> + ulp x / 2" using round53_err[of x] by linarith
  moreover have "ulp x \<le> \<bar>x\<bar> + 1"
    using ulp_le_max[OF False] t by (simp add: max_def split: if_splits)
  ultimately show ?thesis by linarith
qed

lemma ulp_rel:
  assumes "1 / 2 \<le> \<bar>x\<bar>"
  shows "ulp x \<le> \<bar>x\<bar> / 2 ^ 52"
proof -
  have x: "0 < \<bar>x\<bar>" using assms by linarith
  have "log 2 (1 / 2) \<le> log 2 \<bar>x\<bar>" using assms x by (simp add: log_le_cancel_iff)
  then have "- 1 \<le> log 2 \<bar>x\<bar>" by (simp add: log_divide)
  then have "- 1 \<le> \<lfloor>log 2 \<bar>x\<bar>\<rfloor>" by (simp add: le_floor_iff)
  then have e: "ulp_exponent x = \<lfloor>log 2 \<bar>x\<bar>\<rfloor> - 52" by (simp add: ulp_exponent_def)
  have "ulp x = 2 powr (of_int \<lfloor>log 2 \<bar>x\<bar>\<rfloor> + (- 52))" by (simp add: ulp_def e)
  also have "\<dots> = 2 powr of_int \<lfloor>log 2 \<bar>x\<bar>\<rfloor> * 2 powr (- 52)" by (rule powr_add)
  also have "\<dots> \<le> 2 powr log 2 \<bar>x\<bar> * 2 powr (- 52)"
    by (intro mult_right_mono) (simp_all add: powr_le_cancel_iff)
  also have "\<dots> = \<bar>x\<bar> * 2 powr (- 52)" using x by simp
  also have "\<dots> = \<bar>x\<bar> / 2 ^ 52" by (simp add: powr_minus_divide powr_realpow[symmetric])
  finally show ?thesis .
qed

lemma round53_exact:
  assumes "x / ulp x = of_int k"
  shows "round53 x = x"
proof (cases "x = 0")
  case True
  then show ?thesis by simp
next
  case False
  have "round53 x = of_int k * ulp x"
    using False assms by (simp add: round53_def round_even_of_int)
  also have "\<dots> = x" using assms ulp_pos[of x] by (simp add: field_simps)
  finally show ?thesis .
qed

lemma floor_log2_bounds:
  assumes "2 ^ n \<le> x" "x \<le> 2 ^ m"
  shows "int n \<le> \<lfloor>log 2 x\<rfloor> \<and> \<lfloor>log 2 x\<rfloor> \<le> int m"
proof -
  have x: "0 < x" using assms(1) by (smt (verit) zero_less_power)
  have "2 powr real n \<le> x" using assms(1) by (simp add: powr_realpow)
  then have a: "real n \<le> log 2 x" using x by (simp add: le_log_iff)
  have "x \<le> 2 powr real m" using assms(2) by (simp add: powr_realpow)
  then have b: "log 2 x \<le> real m" using x by (simp add: log_le_iff)
  have "\<lfloor>log 2 x\<rfloor> \<le> \<lfloor>real m\<rfloor>" using b by (rule floor_mono)
  moreover have "\<lfloor>real n\<rfloor> \<le> \<lfloor>log 2 x\<rfloor>" using a by (rule floor_mono)
  ultimately show ?thesis by simp
qed

lemma round53_of_int:
  assumes "\<bar>k\<bar> \<le> 2 ^ 53"
  shows "round53 (of_int k) = of_int k"
proof (cases "k = 0")
  case True
  then show ?thesis by simp
next
  case False
  define x :: real where "x = of_int k"
  define e where "e = \<lfloor>log 2 \<bar>x\<bar>\<rfloor>"
  have "1 \<le> \<bar>k\<bar>" using False by simp
  then have lo: "2 ^ 0 \<le> \<bar>x\<bar>" unfolding x_def by (simp flip: of_int_abs)
  have "real_of_int \<bar>k\<bar> \<le> real_of_int (2 ^ 53)" using assms by (subst of_int_le_iff)
  then have hi: "\<bar>x\<bar> \<le> 2 ^ 53" unfolding x_def by simp
  have e: "0 \<le> e" "e \<le> 53" using floor_log2_bounds[OF lo hi] by (simp_all add: e_def)
  have ue: "ulp_exponent x = e - 52" using e by (simp add: ulp_exponent_def e_def)
  show ?thesis
  proof (cases "e = 53")
    case True
    have "2 powr of_int e \<le> 2 powr log 2 \<bar>x\<bar>"
      unfolding e_def by (simp add: powr_le_cancel_iff)
    then have "2 ^ 53 \<le> \<bar>x\<bar>" using lo True by (simp add: powr_realpow)
    then have ax: "\<bar>x\<bar> = 2 ^ 53" using hi by simp
    have u: "ulp x = 2" by (simp add: ulp_def ue True)
    have "x = 2 ^ 53 \<or> x = - (2 ^ 53)" using ax by (simp add: abs_if split: if_splits)
    then have "x / ulp x = of_int (2 ^ 52) \<or> x / ulp x = of_int (- (2 ^ 52))"
      unfolding u by auto
    then show ?thesis using round53_exact[of x] unfolding x_def by blast
  next
    case False
    define j where "j = nat (52 - e)"
    have j: "e - 52 = - int j" using e False by (simp add: j_def)
    have "ulp x = 2 powr (- real j)" by (simp add: ulp_def ue j)
    then have u: "ulp x = 1 / 2 ^ j" by (simp add: powr_minus_divide powr_realpow)
    have "x / ulp x = of_int (k * 2 ^ j)" unfolding u by (simp add: x_def)
    then show ?thesis using round53_exact[of x] unfolding x_def by blast
  qed
qed

lemma round53_one [simp]: "round53 1 = 1"
  using round53_of_int[of 1] by simp


lemma round53_numeral [simp]:
  "numeral n \<le> (2 ^ 53 :: int) \<Longrightarrow> round53 (numeral n) = numeral n"
  using round53_of_int[of "numeral n"] by simp

lemma on_grid_pos:
  assumes "on_grid r" "0 < r"
  shows "tiny \<le> r"
  using on_grid_diff[OF on_grid_zero assms] by simp

lemma tiny_small: "tiny \<le> 1 / 10 ^ 8"
proof -
  have "tiny = 1 / 2 ^ 1074"
    unfolding tiny_def by (simp add: powr_minus_divide powr_realpow[symmetric])
  then show ?thesis by simp
qed

lemma overflow_threshold_large: "2 ^ 1023 < overflow_threshold"
  by (simp add: overflow_threshold_def)

lemma fl_zero [simp]: "fl 0 = Num 0"
  using overflow_threshold_large by (simp add: fl_def)

lemma fl_one [simp]: "fl 1 = Num 1"
proof -
  have "(1::real) < 2 ^ 1023" by simp
  then have "\<not> overflow_threshold \<le> \<bar>1::real\<bar>"
    using overflow_threshold_large by linarith
  then show ?thesis by (simp add: fl_def)
qed

lemma fl_nonneg:
  assumes "0 \<le> x"
  shows "fl x = PosInf \<or> (\<exists>r. fl x = Num r \<and> 0 \<le> r)"
proof (cases "overflow_threshold \<le> \<bar>x\<bar>")
  case True
  then have "0 < x" using assms overflow_threshold_large by (smt (verit) zero_less_power)
  then show ?thesis using True by (simp add: fl_def inf_of_sign_def)
next
  case False
  then show ?thesis using round53_nonneg[OF assms] by (simp add: fl_def)
qed

lemma fl_pos:
  assumes "tiny \<le> x"
  shows "fl x = PosInf \<or> (\<exists>r. fl x = Num r \<and> 0 < r)"
proof (cases "overflow_threshold \<le> \<bar>x\<bar>")
  case True
  have "0 < x" using assms tiny_pos by linarith
  then show ?thesis using True by (simp add: fl_def inf_of_sign_def)
next
  case False
  then show ?thesis using round53_pos[OF assms] by (simp add: fl_def)
qed

lemma fl_Num_bound:
  assumes "fl x = Num r"
  shows "\<bar>r\<bar> \<le> 2 ^ 1026"
proof -
  have x: "\<bar>x\<bar> < overflow_threshold" and r: "r = round53 x"
    using assms by (auto simp: fl_def inf_of_sign_def split: if_splits)
  have "\<bar>r\<bar> \<le> 2 * \<bar>x\<bar> + 1" unfolding r by (rule round53_abs_le)
  moreover have "overflow_threshold \<le> 2 ^ 1024" by (simp add: overflow_threshold_def)
  ultimately have "\<bar>r\<bar> \<le> 2 * 2 ^ 1024 + 1" using x by linarith
  then show ?thesis by simp
qed

lemma representable_fl: "representable (fl x)"
  by (simp add: fl_def representable_def inf_of_sign_def round53_on_grid)

lemma fl_sub_sign:
  assumes "on_grid a" "on_grid b"
  shows "cmp_le0 (fl (b - a)) = (b \<le> a)"
proof (cases "b \<le> a")
  case True
  then have "round53 (b - a) \<le> 0" by (intro round53_nonpos) simp
  then show ?thesis using True by (auto simp: fl_def inf_of_sign_def)
next
  case False
  then have "tiny \<le> b - a" using on_grid_diff[OF assms] by simp
  then have "0 < round53 (b - a)" "0 < b - a" using round53_pos tiny_pos by (blast, linarith)
  then show ?thesis using False by (auto simp: fl_def inf_of_sign_def)
qed

lemma fl_literal_95: "\<exists>r. fl (95 / 100) = Num r \<and> 0 < r \<and> r < 1"
proof -
  define x :: real where "x = 95 / 100"
  have "ulp x \<le> \<bar>x\<bar> / 2 ^ 52" by (rule ulp_rel) (simp add: x_def)
  then have "ulp x / 2 \<le> \<bar>x\<bar> / 2 ^ 52 / 2" by (rule divide_right_mono) simp
  then have "\<bar>round53 x - x\<bar> \<le> \<bar>x\<bar> / 2 ^ 52 / 2"
    using round53_err[of x] by (rule order_trans[rotated])
  then have "round53 x < 1" by (simp add: x_def abs_if split: if_splits)
  moreover have "tiny \<le> x" using tiny_small by (simp add: x_def)
  then have "0 < round53 x" by (rule round53_pos)
  moreover have "\<not> overflow_threshold \<le> \<bar>x\<bar>"
    using overflow_threshold_large by (simp add: x_def)
  ultimately show ?thesis unfolding x_def by (simp add: fl_def)
qed

lemma fl_literal_eps: "\<exists>r. fl (1 / 10 ^ 8) = Num r \<and> tiny \<le> r"
proof -
  define x :: real where "x = 1 / 10 ^ 8"
  have "tiny \<le> x" using tiny_small by (simp add: x_def)
  then have "0 < round53 x" by (rule round53_pos)
  then have "tiny \<le> round53 x" using on_grid_pos[OF round53_on_grid] by simp
  moreover have "\<not> overflow_threshold \<le> \<bar>x\<bar>"
    using overflow_threshold_large by (simp add: x_def)
  ultimately show ?thesis unfolding x_def by (simp add: fl_def)
qed

lemma ulp_bound:
  assumes "x \<noteq> 0"
  shows "ulp x \<le> max (\<bar>x\<bar> / 2 ^ 52) tiny"
proof (cases "- 1074 \<le> \<lfloor>log 2 \<bar>x\<bar>\<rfloor> - 52")
  case True
  have x: "0 < \<bar>x\<bar>" using assms by simp
  have e: "ulp_exponent x = \<lfloor>log 2 \<bar>x\<bar>\<rfloor> - 52" using True by (simp add: ulp_exponent_def)
  have "ulp x = 2 powr (of_int \<lfloor>log 2 \<bar>x\<bar>\<rfloor> + (- 52))" by (simp add: ulp_def e)
  also have "\<dots> = 2 powr of_int \<lfloor>log 2 \<bar>x\<bar>\<rfloor> * 2 powr (- 52)" by (rule powr_add)
  also have "\<dots> \<le> 2 powr log 2 \<bar>x\<bar> * 2 powr (- 52)"
    by (intro mult_right_mono) (simp_all add: powr_le_cancel_iff)
  also have "\<dots> = \<bar>x\<bar> * 2 powr (- 52)" using x by simp
  also have "\<dots> = \<bar>x\<bar> / 2 ^ 52" by (simp add: powr_minus_divide powr_realpow[symmetric])
  finally show ?thesis by simp
next
  case False
  then have "ulp_exponent x = - 1074" by (simp add: ulp_exponent_def)
  then have "ulp x = tiny" by (simp add: ulp_def tiny_def)
  then show ?thesis by simp
qed

lemma tiny_le: "tiny \<le> 1 / 2 ^ 10"
proof -
  have "tiny \<le> 2 powr (- 10)" unfolding tiny_def by (intro powr_mono) simp_all
  also have "\<dots> = 1 / 2 ^ 10" by (simp add: powr_minus_divide powr_realpow[symmetric])
  finally show ?thesis .
qed

lemma round53_upper:
  assumes "0 \<le> x"
  shows "round53 x \<le> x + x / 2 ^ 53 + tiny / 2"
proof (cases "x = 0")
  case True
  then show ?thesis using tiny_pos by simp
next
  case False
  have "ulp x \<le> max (\<bar>x\<bar> / 2 ^ 52) tiny" by (rule ulp_bound[OF False])
  then have "ulp x \<le> x / 2 ^ 52 + tiny" using assms tiny_pos
    by (simp add: max_def split: if_splits)
  then have "ulp x / 2 \<le> x / 2 ^ 53 + tiny / 2" by simp
  then show ?thesis using round53_err[of x] by linarith
qed

lemma fl_small:
  assumes "0 \<le> x" and "x \<le> 2 ^ 52"
  shows "\<exists>r. fl x = Num r \<and> 0 \<le> r \<and> r \<le> x + x / 2 ^ 53 + tiny / 2"
proof -
  have "(2::real) ^ 52 < 2 ^ 1023" by simp
  then have "\<not> overflow_threshold \<le> \<bar>x\<bar>"
    using assms overflow_threshold_large by linarith
  then have "fl x = Num (round53 x)" by (simp add: fl_def)
  then show ?thesis using round53_upper[OF assms(1)] round53_nonneg[OF assms(1)] by simp
qed

section \<open>Properties of the similarity engine\<close>

lemma norm_like_fl: "0 \<le> x \<Longrightarrow> norm_like (fl x)"
  using fl_nonneg[of x] by (auto simp: norm_like_def)

lemmas norm_like_fl_case = norm_like_fl[unfolded norm_like_def]

lemma norm_like_square: "norm_like (jmul x x)"
  by (cases x) (simp_all add: norm_like_fl, simp_all add: norm_like_def)

lemma norm_like_jadd: "norm_like x \<Longrightarrow> norm_like y \<Longrightarrow> norm_like (jadd x y)"
  by (cases x; cases y) (simp_all add: norm_like_def norm_like_fl_case)

lemma norm_like_jsqrt: "norm_like x \<Longrightarrow> norm_like (jsqrt x)"
  by (cases x) (simp_all add: norm_like_def norm_like_fl_case)

lemma norm_like_jmul: "norm_like x \<Longrightarrow> norm_like y \<Longrightarrow> norm_like (jmul x y)"
  by (cases x; cases y) (simp_all add: norm_like_def norm_like_fl_case inf_of_sign_def)

lemma cos_fold_norm_like:
  assumes "norm_like na" "norm_like nb"
  shows "case fold (cos_step a b) is (dp, na, nb) of
           (dp', na', nb') \<Rightarrow> norm_like na' \<and> norm_like nb'"
  using assms
proof (induction "is" arbitrary: dp na nb)
  case Nil
  then show ?case by simp
next
  case (Cons i "is")
  show ?case
    unfolding fold_Cons comp_def cos_step_def[of a b i] prod.case
    by (rule Cons.IH) (simp_all add: norm_like_jadd norm_like_square Cons.prems)
qed

lemma legacy_divisor_nonzero:
  assumes "norm_like na" "norm_like nb"
  shows "cosSim_legacy_divisor na nb \<noteq> Num 0"
proof -
  obtain e where e: "fl (1 / 10 ^ 8) = Num e" "tiny \<le> e"
    using fl_literal_eps by blast
  have p: "norm_like (jmul (jsqrt na) (jsqrt nb))"
    by (intro norm_like_jmul norm_like_jsqrt assms)
  show ?thesis
  proof (cases "jmul (jsqrt na) (jsqrt nb)")
    case (Num r)
    then have "0 \<le> r" using p by (simp add: norm_like_def)
    then have "tiny \<le> r + e" using e by linarith
    then show ?thesis using fl_pos[of "r + e"]
      unfolding cosSim_legacy_divisor_def Num e(1) by auto
  next
    case NaN
    then show ?thesis unfolding cosSim_legacy_divisor_def NaN e(1) by simp
  next
    case PosInf
    then show ?thesis unfolding cosSim_legacy_divisor_def PosInf e(1) by simp
  next
    case NegInf
    then show ?thesis using p by (simp add: norm_like_def)
  qed
qed

lemma cosSim_legacy_divides:
  "case cos_sums a b of (dp, na, nb) \<Rightarrow>
     cosSim_legacy (Some a) (Some b) = Inr (jdiv dp (cosSim_legacy_divisor na nb)) \<and>
     cosSim_legacy_divisor na nb \<noteq> Num 0"
proof -
  obtain dp na nb where s: "cos_sums a b = (dp, na, nb)"
    by (cases "cos_sums a b") auto
  have "case fold (cos_step a b) [0..<length a] (Num 0, Num 0, Num 0) of
          (dp', na', nb') \<Rightarrow> norm_like na' \<and> norm_like nb'"
    by (rule cos_fold_norm_like) (simp_all add: norm_like_def)
  then have "norm_like na" "norm_like nb"
    using s by (auto simp: cos_sums_def)
  then show ?thesis using s legacy_divisor_nonzero[of na nb]
    by (simp add: cosSim_legacy_def)
qed

lemma cosSim_divides:
  "cosSim a b = Num 0 \<or>
   (\<exists>av bv dp na nb. a = Some av \<and> b = Some bv \<and> cos_sums av bv = (dp, na, nb) \<and>
      jmul (jsqrt na) (jsqrt nb) \<noteq> Num 0 \<and>
      cosSim a b = jdiv dp (jmul (jsqrt na) (jsqrt nb)))"
  by (auto simp: cosSim_def Let_def split: option.splits prod.splits)

lemma norm_value_fl: "0 \<le> x \<Longrightarrow> norm_value (fl x)"
  using fl_nonneg[of x] fl_Num_bound[of x] by (auto simp: norm_value_def)

lemma norm_value_jadd:
  assumes "norm_value x" "norm_value y"
  shows "norm_value (jadd x y)"
proof (cases x)
  case x: (Num r)
  show ?thesis
  proof (cases y)
    case (Num s)
    have "0 \<le> r + s" using assms x Num by (simp add: norm_value_def)
    then show ?thesis unfolding x Num jadd.simps by (rule norm_value_fl)
  qed (use assms x in \<open>simp_all add: norm_value_def\<close>)
qed (use assms in \<open>cases y; simp add: norm_value_def\<close>)+

lemma norm_value_squared_norm_fold:
  "norm_value acc \<Longrightarrow>
     norm_value (fold (\<lambda>x acc. jadd acc (jmul (Num x) (Num x))) v acc)"
  by (induction v arbitrary: acc) (simp_all add: norm_value_jadd norm_value_fl)

lemma norm_value_squared_norm: "norm_value (squared_norm v)"
  unfolding squared_norm_def
  by (rule norm_value_squared_norm_fold) (simp add: norm_value_def)

lemma cos_fold_zero:
  assumes "\<forall>i \<in> set is. i < length a \<and> i < length b \<and> a ! i = 0"
  shows "fold (cos_step a b) is (Num 0, Num 0, nb) =
     (Num 0, Num 0, fold (\<lambda>x acc. jadd acc (jmul (Num x) (Num x))) (map (nth b) is) nb)"
  using assms
proof (induction "is" arbitrary: nb)
  case Nil
  then show ?case by simp
next
  case (Cons i "is")
  have step: "cos_step a b i (Num 0, Num 0, nb) =
      (Num 0, Num 0, jadd nb (jmul (Num (b ! i)) (Num (b ! i))))"
    using Cons.prems by (simp add: cos_step_def elem_def)
  show ?case using Cons.IH[of "jadd nb (jmul (Num (b ! i)) (Num (b ! i)))"] Cons.prems
    by (simp add: step)
qed

lemma cos_sums_zero:
  "cos_sums (replicate (length v) 0) v = (Num 0, Num 0, squared_norm v)"
proof -
  have "fold (cos_step (replicate (length v) 0) v) [0..<length v] (Num 0, Num 0, Num 0) =
     (Num 0, Num 0,
      fold (\<lambda>x acc. jadd acc (jmul (Num x) (Num x))) (map (nth v) [0..<length v]) (Num 0))"
    by (rule cos_fold_zero) simp
  then show ?thesis by (simp add: cos_sums_def squared_norm_def map_nth)
qed

lemma jsqrt_norm_value:
  assumes "norm_value (Num r)"
  shows "\<exists>s. jsqrt (Num r) = Num s"
proof -
  have r: "0 \<le> r" "r \<le> 2 ^ 1026" using assms by (simp_all add: norm_value_def)
  have "r \<le> (2 ^ 513)\<^sup>2" using r by simp
  then have "sqrt r \<le> 2 ^ 513" by (intro real_le_lsqrt) simp_all
  moreover have "(2::real) ^ 513 < 2 ^ 1023" by simp
  ultimately have "\<bar>sqrt r\<bar> < overflow_threshold"
    using overflow_threshold_large r by (simp add: abs_if)
  then show ?thesis using r by (simp add: fl_def)
qed

lemma cosSim_zero:
  "cosSim (Some (replicate (length v) 0)) (Some v) =
     (if squared_norm v = PosInf then NaN else Num 0)"
proof (cases "squared_norm v")
  case (Num r)
  then obtain s where "jsqrt (Num r) = Num s"
    using jsqrt_norm_value[of r] norm_value_squared_norm[of v] by auto
  then show ?thesis using Num
    by (simp add: cosSim_def cos_sums_zero del: jsqrt.simps)
       (simp add: Let_def)
next
  case PosInf
  then show ?thesis by (simp add: cosSim_def cos_sums_zero inf_of_sign_def)
qed (use norm_value_squared_norm[of v] in \<open>simp_all add: norm_value_def\<close>)

lemma cosSim_legacy_zero:
  "cosSim_legacy (Some (replicate (length v) 0)) (Some v) =
     Inr (if squared_norm v = PosInf then NaN else Num 0)"
proof (cases "squared_norm v")
  case (Num r)
  then obtain s where s: "jsqrt (Num r) = Num s"
    using jsqrt_norm_value[of r] norm_value_squared_norm[of v] by auto
  obtain e where e: "fl (1 / 10 ^ 8) = Num e" "tiny \<le> e"
    using fl_literal_eps by blast
  have "fl e = PosInf \<or> (\<exists>d. fl e = Num d \<and> 0 < d)" using fl_pos[OF e(2)] .
  moreover have "fl e \<noteq> PosInf"
  proof -
    have "e = round53 (1 / 10 ^ 8)"
      using e(1) by (auto simp: fl_def inf_of_sign_def split: if_splits)
    then have "\<bar>e\<bar> \<le> 2 * \<bar>1 / 10 ^ 8 :: real\<bar> + 1"
      using round53_abs_le[of "1 / 10 ^ 8"] by simp
    then have "\<bar>e\<bar> \<le> 2" by simp
    moreover have "(2::real) < 2 ^ 1023" by simp
    ultimately have "\<bar>e\<bar> < overflow_threshold"
      using overflow_threshold_large by linarith
    then show ?thesis by (simp add: fl_def)
  qed
  ultimately obtain d where d: "fl e = Num d" "0 < d" by blast
  have "jmul (Num 0) (Num s) = Num 0" by simp
  then have "cosSim_legacy_divisor (Num 0) (Num r) = Num d"
    unfolding cosSim_legacy_divisor_def s e(1) using d by simp
  then show ?thesis using Num d
    by (simp add: cosSim_legacy_def cos_sums_zero)
next
  case PosInf
  obtain e where e: "fl (1 / 10 ^ 8) = Num e" using fl_literal_eps by blast
  have "cosSim_legacy_divisor (Num 0) PosInf = NaN"
    unfolding cosSim_legacy_divisor_def e by (simp add: inf_of_sign_def)
  then show ?thesis using PosInf
    by (simp add: cosSim_legacy_def cos_sums_zero)
qed (use norm_value_squared_norm[of v] in \<open>simp_all add: norm_value_def\<close>)

lemma squared_norm_cases: "squared_norm v = PosInf \<or> (\<exists>r. squared_norm v = Num r \<and> 0 \<le> r)"
  using norm_value_squared_norm[of v] by (auto simp: norm_value_def split: jsnum.splits)

lemma ex_huge_large: "10 ^ 199 \<le> ex_huge"
proof -
  define x :: real where "x = 10 ^ 200"
  have x: "0 < x" "1 / 2 \<le> \<bar>x\<bar>" by (simp_all add: x_def)
  have "ulp x \<le> \<bar>x\<bar> / 2 ^ 52" using x(2) by (rule ulp_rel)
  also have "\<dots> \<le> x" using x(1) by (simp add: field_simps)
  finally have "ulp x / 2 \<le> x / 2" by simp
  then have "x / 2 \<le> round53 x" using round53_err[of x] by linarith
  moreover have "(10::real) ^ 199 \<le> x / 2" by (simp add: x_def)
  ultimately show ?thesis unfolding ex_huge_def x_def by linarith
qed

lemma overflow_square: "fl (ex_huge * ex_huge) = PosInf"
proof -
  have h: "(0::real) \<le> 10 ^ 199" by simp
  have "(10::real) ^ 199 * 10 ^ 199 \<le> ex_huge * ex_huge"
    using ex_huge_large h by (intro mult_mono) simp_all
  moreover have "overflow_threshold \<le> 10 ^ 199 * 10 ^ 199"
    by (simp add: overflow_threshold_def)
  ultimately have o: "overflow_threshold \<le> ex_huge * ex_huge" by linarith
  then have p: "0 < ex_huge * ex_huge"
    using overflow_threshold_large by (smt (verit) zero_less_power)
  then have "overflow_threshold \<le> \<bar>ex_huge * ex_huge\<bar>" using o by linarith
  then have "fl (ex_huge * ex_huge) = inf_of_sign (ex_huge * ex_huge)"
    unfolding fl_def by (rule if_P)
  also have "\<dots> = PosInf"
  proof -
    have "(0::real) < 10 ^ 199" by simp
    then have "0 < ex_huge" using ex_huge_large by linarith
    then show ?thesis by (simp add: inf_of_sign_def)
  qed
  finally show ?thesis .
qed

lemma squared_norm_ex_huge: "squared_norm [ex_huge] = PosInf"
  using overflow_square by (simp add: squared_norm_def)

lemma squared_norm_ex_unit: "squared_norm [0, 1] = Num 1"
  by (simp add: squared_norm_def)

lemma squared_norm_fold_bounded:
  assumes "\<forall>x \<in> set v. \<bar>x\<bar> \<le> 1" and "0 \<le> r" and "r \<le> 2 * real k"
    and "k + length v \<le> 2 ^ 50"
  shows "\<exists>r'. fold (\<lambda>x acc. jadd acc (jmul (Num x) (Num x))) v (Num r) = Num r' \<and>
           0 \<le> r' \<and> r' \<le> 2 * real (k + length v)"
  using assms
proof (induction v arbitrary: r k)
  case Nil
  then show ?case by simp
next
  case (Cons x v)
  have x: "0 \<le> x * x" "x * x \<le> 1"
    using Cons.prems(1) by (simp_all add: abs_le_square_iff[of x 1, simplified] power2_eq_square[symmetric])
  have "x * x \<le> 2 ^ 52" using x(2) by (smt (verit) one_le_power)
  then obtain t where t: "fl (x * x) = Num t" "0 \<le> t" "t \<le> x * x + x * x / 2 ^ 53 + tiny / 2"
    using fl_small[OF x(1)] by blast
  have t2: "t \<le> 3 / 2" using t(3) x tiny_le by (simp add: field_simps)
  have k: "real k \<le> 2 ^ 50 - 1"
  proof -
    have "k + 1 \<le> 2 ^ 50" using Cons.prems(4) by simp
    then have "real (k + 1) \<le> real (2 ^ 50)" by (rule of_nat_mono)
    then show ?thesis by simp
  qed
  have s51: "r + t \<le> 2 ^ 51" using Cons.prems(3) t2 k by simp
  have s: "0 \<le> r + t" "r + t \<le> 2 ^ 52" using Cons.prems(2) t(2) s51 by simp_all
  obtain r1 where r1: "fl (r + t) = Num r1" "0 \<le> r1" "r1 \<le> (r + t) + (r + t) / 2 ^ 53 + tiny / 2"
    using fl_small[OF s] by blast
  have "(r + t) / 2 ^ 53 \<le> 2 ^ 51 / 2 ^ 53" using s51 by (intro divide_right_mono) simp_all
  then have q: "(r + t) / 2 ^ 53 \<le> 1 / 4" by simp
  have "tiny / 2 \<le> 1 / 4" using tiny_le by simp
  then have "r1 \<le> 2 * real k + 2" using r1(3) t2 Cons.prems(3) q by linarith
  then have "r1 \<le> 2 * real (Suc k)" by simp
  then obtain r' where
    "fold (\<lambda>x acc. jadd acc (jmul (Num x) (Num x))) v (Num r1) = Num r' \<and>
       0 \<le> r' \<and> r' \<le> 2 * real (Suc k + length v)"
    using Cons.IH[of r1 "Suc k"] Cons.prems(1,4) r1(2) by auto
  then show ?case by (simp add: t(1) r1(1))
qed

lemma squared_norm_bounded:
  assumes "\<forall>x \<in> set v. \<bar>x\<bar> \<le> 1" and "length v \<le> 2 ^ 50"
  shows "\<exists>r. squared_norm v = Num r \<and> 0 \<le> r \<and> r \<le> 2 * real (length v)"
  using squared_norm_fold_bounded[of v 0 0] assms by (simp add: squared_norm_def)


text \<open>
  C8 as the code has it. On the all-zero vector of the dimension of \<open>v\<close> and a vector
  \<open>v\<close> of finite numbers, both variants return 0 when the sum of the squares of \<open>v\<close>, as
  the loop accumulates it in double precision, is finite, and \<^verbatim>\<open>NaN\<close> when it
  overflows to the positive infinity; that sum is never \<^verbatim>\<open>NaN\<close>. It is finite, and the
  result is 0, whenever no entry of \<open>v\<close> exceeds 1 in magnitude and \<open>v\<close> has at most
  \<^verbatim>\<open>2^50\<close> entries. The core variant also returns 0 on a zero vector of another
  dimension. Neither variant raises on two vectors and neither divides by zero: the
  core variant returns 0 or the quotient by a denominator that is not zero, since it
  tests the denominator; the legacy variant returns the quotient by a divisor that is
  never zero, since it adds 1e-8.
\<close>

theorem cosSim_zero_vector:
  "cosSim (Some (replicate n 0)) (Some v) =
     (if n = length v \<and> squared_norm v = PosInf then NaN else Num 0)
   \<and> cosSim_legacy (Some (replicate (length v) 0)) (Some v) =
       Inr (if squared_norm v = PosInf then NaN else Num 0)
   \<and> (squared_norm v = PosInf \<or> (\<exists>r. squared_norm v = Num r \<and> 0 \<le> r))
   \<and> ((\<forall>x \<in> set v. \<bar>x\<bar> \<le> 1) \<and> length v \<le> 2 ^ 50 \<longrightarrow>
        cosSim (Some (replicate (length v) 0)) (Some v) = Num 0 \<and>
        cosSim_legacy (Some (replicate (length v) 0)) (Some v) = Inr (Num 0))
   \<and> (cosSim a b = Num 0 \<or>
       (\<exists>av bv dp na nb. a = Some av \<and> b = Some bv \<and> cos_sums av bv = (dp, na, nb) \<and>
          jmul (jsqrt na) (jsqrt nb) \<noteq> Num 0 \<and>
          cosSim a b = jdiv dp (jmul (jsqrt na) (jsqrt nb))))
   \<and> (case cos_sums av bv of (dp, na, nb) \<Rightarrow>
        cosSim_legacy (Some av) (Some bv) = Inr (jdiv dp (cosSim_legacy_divisor na nb)) \<and>
        cosSim_legacy_divisor na nb \<noteq> Num 0)"
proof (intro conjI)
  show "cosSim (Some (replicate n 0)) (Some v) =
     (if n = length v \<and> squared_norm v = PosInf then NaN else Num 0)"
  proof (cases "n = length v")
    case True
    then show ?thesis using cosSim_zero[of v] by simp
  next
    case False
    then show ?thesis by (simp add: cosSim_def)
  qed
  show "(\<forall>x \<in> set v. \<bar>x\<bar> \<le> 1) \<and> length v \<le> 2 ^ 50 \<longrightarrow>
        cosSim (Some (replicate (length v) 0)) (Some v) = Num 0 \<and>
        cosSim_legacy (Some (replicate (length v) 0)) (Some v) = Inr (Num 0)"
  proof
    assume "(\<forall>x \<in> set v. \<bar>x\<bar> \<le> 1) \<and> length v \<le> 2 ^ 50"
    then obtain r where "squared_norm v = Num r"
      using squared_norm_bounded[of v] by blast
    then show "cosSim (Some (replicate (length v) 0)) (Some v) = Num 0 \<and>
        cosSim_legacy (Some (replicate (length v) 0)) (Some v) = Inr (Num 0)"
      by (simp add: cosSim_zero cosSim_legacy_zero)
  qed
qed (rule cosSim_legacy_zero squared_norm_cases cosSim_divides cosSim_legacy_divides)+

theorem cosSim_zero_vector_witness:
  "list_all (\<lambda>x. \<bar>x\<bar> \<le> 1) [0, 1 :: real] \<and> length [0, 1 :: real] \<le> 2 ^ 50
   \<and> cosSim (Some [0, 0]) (Some [0, 1]) = Num 0
   \<and> cosSim_legacy (Some [0, 0]) (Some [0, 1]) = Inr (Num 0)
   \<and> squared_norm [0, 1] = Num 1"
proof -
  have h: "(\<forall>x \<in> set [0, 1 :: real]. \<bar>x\<bar> \<le> 1) \<and> length [0, 1 :: real] \<le> 2 ^ 50"
    by simp
  note inst = cosSim_zero_vector[where v = "[0, 1]", THEN conjunct2, THEN conjunct2,
      THEN conjunct2, THEN conjunct1]
  have "cosSim (Some (replicate (length [0, 1 :: real]) 0)) (Some [0, 1]) = Num 0 \<and>
        cosSim_legacy (Some (replicate (length [0, 1 :: real]) 0)) (Some [0, 1]) = Inr (Num 0)"
    using inst h by (rule mp)
  then have "cosSim (Some [0, 0]) (Some [0, 1]) = Num 0 \<and>
        cosSim_legacy (Some [0, 0]) (Some [0, 1]) = Inr (Num 0)"
    by (simp add: numeral_2_eq_2)
  moreover have "length [0, 1 :: real] \<le> 2 ^ 50" by simp
  ultimately show ?thesis using squared_norm_ex_unit by simp
qed

text \<open>
  C8 as stated fails for a vector whose squares overflow: on the zero vector and the
  vector of the single entry \<^verbatim>\<open>1e200\<close> (\<open>ex_huge\<close>) the second norm is the positive
  infinity, the
  product of the norms is \<^verbatim>\<open>0 * Infinity\<close>, and both variants return \<^verbatim>\<open>NaN\<close>.
\<close>

theorem cosSim_zero_vector_counterexample:
  "cosSim (Some [0]) (Some [ex_huge]) = NaN
   \<and> cosSim_legacy (Some [0]) (Some [ex_huge]) = Inr NaN
   \<and> squared_norm [ex_huge] = PosInf"
proof -
  have "cosSim (Some [0]) (Some [ex_huge]) = NaN"
    using cosSim_zero[of "[ex_huge]"] unfolding squared_norm_ex_huge by simp
  moreover have "cosSim_legacy (Some [0]) (Some [ex_huge]) = Inr NaN"
    using cosSim_legacy_zero[of "[ex_huge]"] unfolding squared_norm_ex_huge by simp
  ultimately show ?thesis using squared_norm_ex_huge by simp
qed

text \<open>
  Outside the dimension of \<open>v\<close> the legacy variant has no guard: a zero vector longer
  than \<open>v\<close> makes the loop read past the end of \<open>v\<close>, and the result is \<^verbatim>\<open>NaN\<close>.
\<close>

lemma cosSim_legacy_longer_zero: "cosSim_legacy (Some [0, 0]) (Some [1]) = Inr NaN"
proof -
  obtain e where e: "fl (1 / 10 ^ 8) = Num e" using fl_literal_eps by blast
  have "cosSim_legacy_divisor (Num 0) NaN = NaN"
    unfolding cosSim_legacy_divisor_def e by simp
  then show ?thesis
    by (simp add: cosSim_legacy_def cos_sums_def cos_step_def elem_def upt_rec)
qed

text \<open>
  C10. The core variant is total on its arguments: when an argument is null or undefined,
  or the two vectors differ in length, it returns the number 0, which is neither
  \<^verbatim>\<open>NaN\<close> nor the similarity of the vectors cut to the shorter length.
\<close>

theorem cosSim_guard:
  assumes "a = None \<or> b = None \<or>
    (\<exists>av bv. a = Some av \<and> b = Some bv \<and> length av \<noteq> length bv)"
  shows "cosSim a b = Num 0"
  using assms by (auto simp: cosSim_def split: option.splits)

theorem cosSim_guard_witness:
  "cosSim (Some [1, 2]) (Some [1]) = Num 0 \<and> cosSim (Some [1]) (Some [1]) = Num 1
   \<and> cosSim None (Some [1]) = Num 0 \<and> cosSim (Some [1]) None = Num 0"
proof -
  have "cosSim (Some [1]) (Some [1]) = Num 1"
    by (simp add: cosSim_def cos_sums_def cos_step_def elem_def)
  then show ?thesis
    using cosSim_guard[of "Some [1, 2]" "Some [1]"] cosSim_guard[of None "Some [1]"]
      cosSim_guard[of "Some [1]" None]
    by simp
qed

section \<open>Properties of retrieval\<close>

lemmas representable_fl_case = representable_fl[unfolded representable_def]

lemma representable_jdiv: "representable (jdiv x y)"
  by (cases x; cases y)
     (simp_all add: representable_def representable_fl_case on_grid_zero inf_of_sign_def)

lemma representable_cosSim: "representable (cosSim a b)"
  using cosSim_divides[of a b] representable_jdiv
  by (auto simp: representable_def on_grid_zero)

lemma cmp_sim_key:
  assumes "rankable x" "rankable y"
  shows "cmp_le0 (by_similarity_desc x y) = (sim_key x \<le> sim_key y)"
proof (cases "similarity x")
  case x: (Num a)
  show ?thesis
  proof (cases "similarity y")
    case (Num b)
    have "on_grid a" "on_grid b"
      using assms x Num by (simp_all add: rankable_def representable_def)
    then have "cmp_le0 (fl (b - a)) = (b \<le> a)" by (rule fl_sub_sign)
    then show ?thesis by (simp add: by_similarity_desc_def jsub_def sim_key_def key_of_def x Num)
  qed (use assms x in \<open>simp_all add: by_similarity_desc_def jsub_def sim_key_def key_of_def rankable_def\<close>)
next
  case x: PosInf
  show ?thesis
    by (cases "similarity y")
       (use assms x in \<open>simp_all add: by_similarity_desc_def jsub_def sim_key_def key_of_def rankable_def\<close>)
qed (use assms in \<open>simp_all add: rankable_def\<close>)

lemma insort_cmp_insort_key:
  assumes "rankable x" and "list_all rankable ys"
  shows "insort_cmp by_similarity_desc x ys = insort_key sim_key x ys"
  using assms by (induction ys) (simp_all add: cmp_sim_key)

lemma js_sort_sort_key:
  assumes "list_all rankable xs"
  shows "js_sort by_similarity_desc xs = sort_key sim_key xs"
  using assms
proof (induction xs)
  case Nil
  then show ?case by (simp add: js_sort_def)
next
  case (Cons x xs)
  then have "list_all rankable (sort_key sim_key xs)"
    by (simp add: list_all_iff)
  then show ?case using Cons
    by (simp add: js_sort_def insort_cmp_insort_key)
qed

lemma truncate_extend: "memory_item.truncate (memory_item.extend item m) = item"
  by (simp add: memory_item.truncate_def memory_item.extend_def)

lemma similarity_extend:
  "similarity (memory_item.extend item (scored_item.fields s)) = s"
  by (simp add: memory_item.extend_def scored_item.fields_def)

lemma embedding_extend:
  "embedding (memory_item.extend item m) = embedding item"
  by (simp add: memory_item.extend_def)

lemma score_items_representable:
  "r \<in> set (score_items q items) \<Longrightarrow> representable (similarity r)"
  by (auto simp: score_items_def similarity_extend representable_cosSim)

lemma jge_rankable:
  assumes "representable (similarity r)" "jge (similarity r) (Num minSim)"
  shows "rankable r"
  using assms by (cases "similarity r") (simp_all add: rankable_def)

lemma passing_rankable:
  "list_all rankable (filter (\<lambda>item. jge (similarity item) (Num minSim)) (score_items q items))"
  using score_items_representable jge_rankable by (auto simp: list_all_iff)

lemma js_slice0_take: "0 \<le> k \<Longrightarrow> js_slice0 k xs = take (nat k) xs"
  by (simp add: js_slice0_def)

lemma retrieved_eq:
  "js_sort by_similarity_desc
     (filter (\<lambda>item. jge (similarity item) (Num minSim)) (score_items q items)) =
   retrieved q items minSim"
  unfolding retrieved_def by (rule js_sort_sort_key) (rule passing_rankable)

lemma score_items_similarity:
  "r \<in> set (score_items q items) \<Longrightarrow>
     similarity r = cosSim (Some q) (embedding r) \<and> embedding r \<noteq> None \<and>
     memory_item.truncate r \<in> set items"
  by (auto simp: score_items_def similarity_extend embedding_extend truncate_extend)

lemma score_items_tie_class:
  "map memory_item.truncate (filter (\<lambda>r. similarity r = s) (score_items q items)) =
   filter (\<lambda>item. embedding item \<noteq> None \<and> cosSim (Some q) (embedding item) = s) items"
  by (induction items) (auto simp: score_items_def similarity_extend truncate_extend)

lemma set_retrieved:
  "set (retrieved q items minSim) =
     {r \<in> set (score_items q items). jge (similarity r) (Num minSim)}"
  by (auto simp: retrieved_def)

lemma retrieved_rankable: "r \<in> set (retrieved q items minSim) \<Longrightarrow> rankable r"
  using score_items_representable jge_rankable by (auto simp: set_retrieved)

lemma sim_key_jge:
  assumes "rankable a" "rankable b" "sim_key a \<le> sim_key b"
  shows "jge (similarity a) (similarity b)"
  using assms
  by (cases "similarity a"; cases "similarity b") (simp_all add: rankable_def sim_key_def key_of_def)

lemma retrieved_sorted:
  "sorted_wrt (\<lambda>a b. jge (similarity a) (similarity b)) (retrieved q items minSim)"
proof -
  have "sorted (map sim_key (retrieved q items minSim))"
    unfolding retrieved_def by (rule sorted_sort_key)
  then have "sorted_wrt (\<lambda>a b. sim_key a \<le> sim_key b) (retrieved q items minSim)"
    by (simp add: sorted_map)
  then show ?thesis
  proof (rule sorted_wrt_mono_rel[rotated])
    fix a b
    assume "a \<in> set (retrieved q items minSim)" "b \<in> set (retrieved q items minSim)"
      and "sim_key a \<le> sim_key b"
    then show "jge (similarity a) (similarity b)"
      using retrieved_rankable[of a q items minSim] retrieved_rankable[of b q items minSim]
      by (intro sim_key_jge)
  qed
qed

lemma filter_similarity_key:
  assumes "list_all rankable xs" and "s \<noteq> NaN" and "s \<noteq> NegInf"
  shows "filter (\<lambda>r. similarity r = s) xs = filter (\<lambda>r. sim_key r = key_of s) xs"
proof (rule filter_cong)
  fix r
  assume "r \<in> set xs"
  then have "rankable r" using assms(1) by (simp add: list_all_iff)
  then show "(similarity r = s) = (sim_key r = key_of s)"
    using assms(2,3)
    by (cases "similarity r"; cases s) (simp_all add: rankable_def sim_key_def key_of_def)
qed simp

lemma filter_similarity_unrankable:
  assumes "list_all rankable xs" and "s = NaN \<or> s = NegInf"
  shows "filter (\<lambda>r. similarity r = s) xs = []"
  using assms by (auto simp: filter_empty_conv list_all_iff rankable_def)

lemma retrieved_stable:
  "filter (\<lambda>r. similarity r = s) (retrieved q items minSim) =
   filter (\<lambda>r. similarity r = s)
     (filter (\<lambda>item. jge (similarity item) (Num minSim)) (score_items q items))"
proof -
  let ?xs = "filter (\<lambda>item. jge (similarity item) (Num minSim)) (score_items q items)"
  have fin: "list_all rankable ?xs" by (rule passing_rankable)
  then have fin': "list_all rankable (sort_key sim_key ?xs)" by (simp add: list_all_iff)
  show ?thesis
  proof (cases "s = NaN \<or> s = NegInf")
    case False
    then have s: "s \<noteq> NaN" "s \<noteq> NegInf" by simp_all
    have "filter (\<lambda>r. similarity r = s) (sort_key sim_key ?xs) =
          filter (\<lambda>r. sim_key r = key_of s) (sort_key sim_key ?xs)"
      by (rule filter_similarity_key[OF fin' s])
    also have "\<dots> = filter (\<lambda>r. sim_key r = key_of s) ?xs"
      by (rule sort_key_stable)
    also have "\<dots> = filter (\<lambda>r. similarity r = s) ?xs"
      by (rule filter_similarity_key[OF fin s, symmetric])
    finally show ?thesis by (simp only: retrieved_def)
  next
    case True
    then have "filter (\<lambda>r. similarity r = s) (sort_key sim_key ?xs) = []"
      and "filter (\<lambda>r. similarity r = s) ?xs = []"
      using filter_similarity_unrankable[OF fin'] filter_similarity_unrankable[OF fin] by blast+
    then show ?thesis by (simp only: retrieved_def)
  qed
qed

lemma retrieved_tie_prefix:
  "prefix
     (map memory_item.truncate
        (filter (\<lambda>r. similarity r = s) (take n (retrieved q items minSim))))
     (filter (\<lambda>item. embedding item \<noteq> None \<and> cosSim (Some q) (embedding item) = s
                \<and> jge s (Num minSim)) items)"
proof -
  have "prefix (filter (\<lambda>r. similarity r = s) (take n (retrieved q items minSim)))
          (filter (\<lambda>r. similarity r = s) (retrieved q items minSim))"
    by (rule filter_mono_prefix) (rule take_is_prefix)
  then have "prefix
      (map memory_item.truncate
         (filter (\<lambda>r. similarity r = s) (take n (retrieved q items minSim))))
      (map memory_item.truncate (filter (\<lambda>r. similarity r = s) (retrieved q items minSim)))"
    by (rule map_mono_prefix)
  moreover have
    "map memory_item.truncate (filter (\<lambda>r. similarity r = s) (retrieved q items minSim)) =
      filter (\<lambda>item. embedding item \<noteq> None \<and> cosSim (Some q) (embedding item) = s
                \<and> jge s (Num minSim)) items"
  proof -
    have "filter (\<lambda>r. similarity r = s) (retrieved q items minSim) =
        filter (\<lambda>r. jge s (Num minSim)) (filter (\<lambda>r. similarity r = s) (score_items q items))"
      unfolding retrieved_stable by (auto intro: filter_cong)
    then have
      "map memory_item.truncate (filter (\<lambda>r. similarity r = s) (retrieved q items minSim)) =
        filter (\<lambda>item. jge s (Num minSim))
          (map memory_item.truncate (filter (\<lambda>r. similarity r = s) (score_items q items)))"
      by (simp add: filter_map comp_def)
    then show ?thesis
      unfolding score_items_tie_class by (auto intro: filter_cong)
  qed
  ultimately show ?thesis by simp
qed

lemma loadMemory_cases:
  "loadMemory st =
     (case memoryFile st of
        Some m \<Rightarrow> (Inr m, st)
      | None \<Rightarrow>
          if writable st
          then (Inr init_memory,
                st\<lparr>memoryFile := Some init_memory, writes := writes st @ [init_memory]\<rparr>)
          else (Inl (JsError ''Error'' ''EACCES: permission denied''), st))"
  by (simp add: loadMemory_def writeJSON_def split: option.splits)

lemma retrieve_result:
  "fst (retrieveLongTermMemory env st query k minSim) =
     Inr (if longTerm (loaded st) = [] then []
          else case ollamaEmbed env (Str query) of
                 Inl e \<Rightarrow> []
               | Inr embs \<Rightarrow>
                   (case first_embedding embs of
                      None \<Rightarrow> []
                    | Some q \<Rightarrow> js_slice0 k (retrieved q (longTerm (loaded st)) minSim)))"
proof (cases "memoryFile st")
  case None
  then show ?thesis
    by (cases "writable st")
       (simp_all add: retrieveLongTermMemory_def retrieve_body_def loadMemory_cases loaded_def
          init_memory_def)
next
  case (Some m)
  then show ?thesis
    by (simp add: retrieveLongTermMemory_def retrieve_body_def loadMemory_cases loaded_def
        retrieved_eq split: sum.splits option.splits)
qed

lemma take_retrieved_props:
  fixes n :: nat and q items minSim
  defines "rs \<equiv> take n (retrieved q items minSim)"
  shows "length rs \<le> n"
    and "\<forall>r \<in> set rs. jge (similarity r) (Num minSim)"
    and "sorted_wrt (\<lambda>a b. jge (similarity a) (similarity b)) rs"
    and "\<forall>r \<in> set rs. similarity r = cosSim (Some q) (embedding r)"
    and "\<forall>s. prefix (map memory_item.truncate (filter (\<lambda>r. similarity r = s) rs))
           (filter (\<lambda>item. embedding item \<noteq> None \<and> cosSim (Some q) (embedding item) = s) items)"
proof -
  show "length rs \<le> n" by (simp add: rs_def)
  have sub: "set rs \<subseteq> set (retrieved q items minSim)"
    unfolding rs_def by (rule set_take_subset)
  show ge: "\<forall>r \<in> set rs. jge (similarity r) (Num minSim)"
    using sub by (auto simp: set_retrieved)
  show "sorted_wrt (\<lambda>a b. jge (similarity a) (similarity b)) rs"
    unfolding rs_def by (rule sorted_wrt_take) (rule retrieved_sorted)
  show "\<forall>r \<in> set rs. similarity r = cosSim (Some q) (embedding r)"
    using sub score_items_similarity[of _ q items] by (auto simp: set_retrieved)
  show "\<forall>s. prefix (map memory_item.truncate (filter (\<lambda>r. similarity r = s) rs))
           (filter (\<lambda>item. embedding item \<noteq> None \<and> cosSim (Some q) (embedding item) = s) items)"
  proof
    fix s
    show "prefix (map memory_item.truncate (filter (\<lambda>r. similarity r = s) rs))
           (filter (\<lambda>item. embedding item \<noteq> None \<and> cosSim (Some q) (embedding item) = s) items)"
    proof (cases "jge s (Num minSim)")
      case True
      then show ?thesis
        using retrieved_tie_prefix[of s n q items minSim] by (simp add: rs_def)
    next
      case False
      then have "filter (\<lambda>r. similarity r = s) rs = []"
        using ge by (auto simp: filter_empty_conv)
      then show ?thesis by simp
    qed
  qed
qed


text \<open>
  C1. For every stored collection and query, retrieval returns and does not raise. It
  returns at most \<open>k\<close> items (\<open>k\<close> a count, not negative); every returned item has a
  similarity of at least \<open>minSim\<close>; the items are in non-increasing order of similarity,
  and among the items of one similarity the returned ones are the first stored ones, in
  the order of the store (ties are broken by insertion order); each similarity is the
  cosine similarity of the query embedding and the item's embedding. It returns the empty
  sequence when the store is empty and when the embedding operation fails or gives no
  vector. The stored collection is the content of the memory file, or the initial empty
  collection when the file is missing or unreadable (whether or not it can be written).
\<close>

theorem retrieveLongTermMemory_ranked:
  assumes "0 \<le> k"
  shows "\<exists>rs. fst (retrieveLongTermMemory env st query k minSim) = Inr rs
    \<and> int (length rs) \<le> k
    \<and> (\<forall>r \<in> set rs. jge (similarity r) (Num minSim))
    \<and> sorted_wrt (\<lambda>a b. jge (similarity a) (similarity b)) rs
    \<and> (case ollamaEmbed env (Str query) of
          Inl e \<Rightarrow> rs = []
        | Inr embs \<Rightarrow>
            (case first_embedding embs of
               None \<Rightarrow> rs = []
             | Some q \<Rightarrow>
                 (\<forall>r \<in> set rs. similarity r = cosSim (Some q) (embedding r)) \<and>
                 (\<forall>s. prefix (map memory_item.truncate (filter (\<lambda>r. similarity r = s) rs))
                        (filter (\<lambda>item. embedding item \<noteq> None \<and>
                                   cosSim (Some q) (embedding item) = s)
                           (longTerm (loaded st))))))
    \<and> (longTerm (loaded st) = [] \<longrightarrow> rs = [])"
proof (cases "longTerm (loaded st) = []")
  case True
  then show ?thesis using assms
    by (simp add: retrieve_result split: sum.splits option.splits)
next
  case nonempty: False
  show ?thesis
  proof (cases "ollamaEmbed env (Str query)")
    case (Inl e)
    then show ?thesis using nonempty assms by (simp add: retrieve_result)
  next
    case (Inr embs)
    show ?thesis
    proof (cases "first_embedding embs")
      case None
      then show ?thesis using nonempty Inr assms by (simp add: retrieve_result)
    next
      case (Some q)
      let ?rs = "take (nat k) (retrieved q (longTerm (loaded st)) minSim)"
      have res: "fst (retrieveLongTermMemory env st query k minSim) = Inr ?rs"
        using nonempty Inr Some assms by (simp add: retrieve_result js_slice0_take)
      have "length ?rs \<le> nat k" by (rule take_retrieved_props)
      then have len: "int (length ?rs) \<le> k" using assms by linarith
      show ?thesis
        using res len nonempty Inr Some
          take_retrieved_props(2-5)[of "nat k" q "longTerm (loaded st)" minSim]
        by simp
    qed
  qed
qed

lemma cos_sums_ex_same: "cos_sums [1, 0] [1, 0] = (Num 1, Num 1, Num 1)"
  by (simp add: cos_sums_def cos_step_def elem_def upt_rec)

lemma cos_sums_ex_orth: "cos_sums [1, 0] [0, 1] = (Num 0, Num 1, Num 1)"
  by (simp add: cos_sums_def cos_step_def elem_def upt_rec)



lemma cosSim_ex_same: "cosSim (Some [1, 0]) (Some [1, 0]) = Num 1"
  by (simp add: cosSim_def cos_sums_ex_same)

lemma cosSim_ex_orth: "cosSim (Some [1, 0]) (Some [0, 1]) = Num 0"
  by (simp add: cosSim_def cos_sums_ex_orth)



lemma ex_retrieve:
  "fst (retrieveLongTermMemory ex_env ex_store ''q'' 5 (3 / 10)) =
     Inr [memory_item.extend (ex_item 1 ''a'' (Some [1, 0])) (scored_item.fields (Num 1)),
          memory_item.extend (ex_item 4 ''d'' (Some [1, 0])) (scored_item.fields (Num 1))]"
  by (simp add: retrieveLongTermMemory_def retrieve_body_def loadMemory_def ex_store_def
      ex_memory_def ex_env_def first_embedding_def score_items_def ex_item_def
      cosSim_ex_same cosSim_ex_orth js_sort_def by_similarity_desc_def jsub_def js_slice0_def
      memory_item.extend_def scored_item.fields_def)

theorem retrieveLongTermMemory_ranked_witness:
  "(0 :: int) \<le> 5
   \<and> fst (retrieveLongTermMemory ex_env ex_store ''q'' 5 (3 / 10)) =
       Inr [memory_item.extend (ex_item 1 ''a'' (Some [1, 0])) (scored_item.fields (Num 1)),
            memory_item.extend (ex_item 4 ''d'' (Some [1, 0])) (scored_item.fields (Num 1))]
   \<and> (\<exists>rs. fst (retrieveLongTermMemory ex_env ex_store ''q'' 5 (3 / 10)) = Inr rs
         \<and> int (length rs) \<le> 5
         \<and> (\<forall>r \<in> set rs. jge (similarity r) (Num (3 / 10)))
         \<and> sorted_wrt (\<lambda>a b. jge (similarity a) (similarity b)) rs)
   \<and> fst (retrieveLongTermMemory ex_env ex_store ''fail'' 5 (3 / 10)) = Inr []
   \<and> fst (retrieveLongTermMemory ex_env ex_store_missing ''q'' 5 (3 / 10)) = Inr []"
proof -
  have "(0 :: int) \<le> 5" by simp
  from retrieveLongTermMemory_ranked[OF this, of ex_env ex_store "''q''" "3 / 10"]
  have "\<exists>rs. fst (retrieveLongTermMemory ex_env ex_store ''q'' 5 (3 / 10)) = Inr rs
         \<and> int (length rs) \<le> 5
         \<and> (\<forall>r \<in> set rs. jge (similarity r) (Num (3 / 10)))
         \<and> sorted_wrt (\<lambda>a b. jge (similarity a) (similarity b)) rs"
    by blast
  moreover have "fst (retrieveLongTermMemory ex_env ex_store ''fail'' 5 (3 / 10)) = Inr []"
    using retrieveLongTermMemory_ranked[of 5 ex_env ex_store "''fail''" "3 / 10"]
    by (auto simp: ex_env_def)
  moreover have "fst (retrieveLongTermMemory ex_env ex_store_missing ''q'' 5 (3 / 10)) = Inr []"
    using retrieveLongTermMemory_ranked[of 5 ex_env ex_store_missing "''q''" "3 / 10"]
    by (auto simp: ex_store_missing_def loaded_def init_memory_def)
  ultimately show ?thesis using ex_retrieve by simp
qed

section \<open>Properties of insertion\<close>

lemma duplicate_scan_iff:
  "duplicate_scan e items \<longleftrightarrow>
     (\<exists>x \<in> set items. \<exists>v. embedding x = Some v \<and>
        jgt (cosSim (Some e) (Some v)) (fl (95 / 100)))"
  by (induction items) (auto split: option.splits)

lemma grown_single:
  "grown mem [x] = mem\<lparr>longTerm := longTerm mem @ [x], nextId := js_increment (nextId mem)\<rparr>"
  by (simp add: grown_def)

lemma grown_Nil: "grown mem [] = mem"
  by (simp add: grown_def)

lemma grown_grown: "grown (grown mem xs) ys = grown mem (xs @ ys)"
proof -
  have "(js_increment ^^ length ys) ((js_increment ^^ length xs) (nextId mem)) =
      (js_increment ^^ (length ys + length xs)) (nextId mem)"
    by (simp add: funpow_add)
  then show ?thesis by (simp add: grown_def add.commute)
qed


lemma upsert_step_valid:
  assumes "truthy (c_content c)"
  shows "upsert_step env (Some c) (mem, added) =
     (if is_duplicate env c (longTerm mem) then Inr (mem, added)
      else if has_slice (c_content c)
      then Inr (grown mem [new_item env c mem (length added)],
                added @ [new_item env c mem (length added)])
      else Inl (JsError ''TypeError'' ''memoryItem.content.slice is not a function''))"
proof (cases "item_embedding env (c_content c)")
  case None
  then show ?thesis using assms
    by (simp add: upsert_step_def is_duplicate_def new_item_def grown_single Let_def)
next
  case (Some e)
  have "(longTerm mem \<noteq> [] \<and> duplicate_scan e (longTerm mem)) =
      is_duplicate env c (longTerm mem)"
    using Some by (auto simp: is_duplicate_def duplicate_scan_iff)
  then show ?thesis using assms Some
    by (simp add: upsert_step_def new_item_def grown_single Let_def)
qed

lemma upsert_step_text:
  assumes "c_content c = Str s" and "s \<noteq> []"
  shows "upsert_step env (Some c) (mem, added) =
     (if is_duplicate env c (longTerm mem) then Inr (mem, added)
      else Inr (grown mem [new_item env c mem (length added)],
                added @ [new_item env c mem (length added)]))"
  using assms upsert_step_valid[of c env mem added]
  by (simp add: truthy_def has_slice_def)

lemma upsert_step_invalid:
  "upsert_step env None acc = Inr acc"
  "\<not> truthy (c_content c) \<Longrightarrow> upsert_step env (Some c) acc = Inr acc"
  by (cases acc; simp add: upsert_step_def)+

lemma upsert_step_grown:
  assumes "upsert_step env cand (mem, added) = Inr (mem', added')"
  shows "\<exists>new. mem' = grown mem new \<and> added' = added @ new"
proof (cases cand)
  case None
  then show ?thesis using assms
    by (intro exI[of _ "[]"]) (simp add: upsert_step_invalid grown_Nil)
next
  case (Some c)
  show ?thesis
  proof (cases "truthy (c_content c)")
    case False
    then show ?thesis using assms Some
      by (intro exI[of _ "[]"]) (simp add: upsert_step_invalid grown_Nil)
  next
    case True
    show ?thesis
    proof (cases "is_duplicate env c (longTerm mem)")
      case dup: True
      then show ?thesis using assms Some True
        by (intro exI[of _ "[]"]) (simp add: upsert_step_valid grown_Nil)
    next
      case False
      then show ?thesis using assms Some True
        by (intro exI[of _ "[new_item env c mem (length added)]"])
           (simp add: upsert_step_valid split: if_splits)
    qed
  qed
qed

lemma upsert_loop_grown:
  assumes "upsert_loop env cands (mem, added) = Inr (mem', added')"
  shows "\<exists>new. mem' = grown mem new \<and> added' = added @ new"
  using assms
proof (induction cands arbitrary: mem added)
  case Nil
  then show ?case by (intro exI[of _ "[]"]) (simp add: grown_Nil)
next
  case (Cons cand cands)
  from Cons.prems obtain m1 a1 where
    s: "upsert_step env cand (mem, added) = Inr (m1, a1)" and
    l: "upsert_loop env cands (m1, a1) = Inr (mem', added')"
    by (auto split: sum.splits)
  obtain n1 where n1: "m1 = grown mem n1" "a1 = added @ n1"
    using upsert_step_grown[OF s] by blast
  obtain n2 where n2: "mem' = grown m1 n2" "added' = a1 @ n2"
    using Cons.IH[OF l] by blast
  show ?case
    by (intro exI[of _ "n1 @ n2"]) (simp add: n1 n2 grown_grown)
qed



lemma upsert_unreadable:
  assumes "memoryFile st = None" and "cands \<noteq> []"
  shows "upsertLongTermMemory env st (JArray cands) =
     (if writable st then
        (case upsert_loop env cands (init_memory, []) of
           Inl e \<Rightarrow>
             (Inr [], st\<lparr>memoryFile := Some init_memory, writes := writes st @ [init_memory]\<rparr>)
         | Inr (mem, added) \<Rightarrow>
             if added = []
             then (Inr [], st\<lparr>memoryFile := Some init_memory,
                               writes := writes st @ [init_memory]\<rparr>)
             else (Inr added, st\<lparr>memoryFile := Some (grown init_memory added),
                                  writes := writes st @ [init_memory, grown init_memory added]\<rparr>))
      else (Inr [], st))"
proof (cases "writable st")
  case False
  then show ?thesis using assms
    by (simp add: upsertLongTermMemory_def upsert_body_def loadMemory_cases)
next
  case True
  show ?thesis
  proof (cases "upsert_loop env cands (init_memory, [])")
    case (Inl e)
    then show ?thesis using assms True
      by (simp add: upsertLongTermMemory_def upsert_body_def loadMemory_cases)
  next
    case (Inr acc)
    obtain mem added where acc: "acc = (mem, added)" by (cases acc)
    then have "mem = grown init_memory added"
      using upsert_loop_grown[of env cands init_memory "[]" mem added] Inr by auto
    then show ?thesis using assms True Inr acc
      by (auto simp: upsertLongTermMemory_def upsert_body_def loadMemory_cases saveMemory_def
          writeJSON_def)
  qed
qed





lemma jgt_literal:
  "jgt (Num 1) (fl (95 / 100))" "\<not> jgt (Num 0) (fl (95 / 100))"
  using fl_literal_95 by auto

lemmas jgt_literal_simps = jgt_literal[simplified]





lemma ex_content: "c_content (ex_candidate t) = Str t"
  by (simp add: ex_candidate_def)







text \<open>
  A content that is no text is outside these statements. A truthy content without a
  \<^verbatim>\<open>slice\<close> method, such as a number, makes the log call after the insertion raise: the
  call returns the empty sequence and persists nothing, also not the candidates
  inserted before.
\<close>

lemma upsert_unsliceable_content:
  "upsertLongTermMemory ex_env ex_store_missing
     (JArray [Some (ex_candidate ''east''), Some ((ex_candidate ''x'')\<lparr>c_content := OtherContent\<rparr>)]) =
   (Inr [], \<lparr>memoryFile = Some init_memory, writable = True, writes = [init_memory]\<rparr>)"
proof -
  have m: "memoryFile ex_store_missing = None" by (simp add: ex_store_missing_def)
  let ?c = "(ex_candidate ''x'')\<lparr>c_content := OtherContent\<rparr>"
  have t: "truthy (c_content ?c)" "\<not> has_slice (c_content ?c)"
    by (simp_all add: truthy_def has_slice_def)
  have e: "\<not> is_duplicate ex_env (ex_candidate ''east'') (longTerm init_memory)"
    by (simp add: is_duplicate_def init_memory_def)
  have d: "\<not> is_duplicate ex_env ?c
      (longTerm (grown init_memory [new_item ex_env (ex_candidate ''east'') init_memory 0]))"
    by (auto simp: is_duplicate_def item_embedding_def ex_env_def ex_candidate_def
        first_embedding_def init_memory_def ex_item_def grown_def new_item_def
        cosSim_ex_orth jgt_literal_simps)
  show ?thesis
    unfolding upsert_unreadable[OF m, of "[Some (ex_candidate ''east''), Some ?c]", simplified]
    using e d t
    by (simp add: upsert_step_text[OF ex_content] upsert_step_valid ex_store_missing_def)
qed











section \<open>Properties of the continuation decision\<close>

text \<open>
  C3. The decision depends only on the number of accumulated results and on the
  complexity label: with no result the search continues; with one or two results it
  continues exactly when the complexity is "high"; with three to seven results exactly
  when the complexity is "high" and there are fewer than five; with eight or more it
  stops. So it continues at (0, "medium") and at (2, "high") and stops at (8, "high").
  An argument that is no array counts as no result.
\<close>

theorem shouldContinueSearching_table:
  "shouldContinue (shouldContinueSearching q (JArray rs) c) =
     (length rs = 0
      \<or> (1 \<le> length rs \<and> length rs \<le> 2 \<and> c = ''high'')
      \<or> (3 \<le> length rs \<and> length rs \<le> 7 \<and> c = ''high'' \<and> length rs < 5))
   \<and> shouldContinue (shouldContinueSearching q (JOther :: 'a js_arg) c)
   \<and> shouldContinue (shouldContinueSearching q (JArray ([] :: 'a list)) ''medium'')
   \<and> shouldContinue (shouldContinueSearching q (JArray [a1, a2 :: 'a]) ''high'')
   \<and> \<not> shouldContinue
        (shouldContinueSearching q (JArray [b1, b2, b3, b4, b5, b6, b7, b8 :: 'a]) ''high'')"
  by (auto simp add: shouldContinueSearching_def Let_def Suc_le_eq)

section \<open>Properties of executing the query plan\<close>

lemma dedup_filter_keys:
  "set (map url_key (dedup_filter seen xs)) = set (map url_key xs) - seen"
  by (induction xs arbitrary: seen) (auto simp: Let_def url_key_def)

lemma dedup_filter_distinct: "distinct (map url_key (dedup_filter seen xs))"
proof (induction xs arbitrary: seen)
  case Nil
  show ?case by simp
next
  case (Cons x xs)
  have "url_key x \<notin> set (map url_key (dedup_filter (insert (url_key x) seen) xs))"
    unfolding dedup_filter_keys by simp
  then show ?case using Cons.IH by (simp add: Let_def url_key_def[symmetric])
qed

lemma dedup_filter_subseq: "subseq (dedup_filter seen xs) xs"
  by (induction xs arbitrary: seen) (auto simp: Let_def)

lemma dedup_filter_first:
  "x \<in> set (dedup_filter seen xs) \<Longrightarrow> find (\<lambda>y. url_key y = url_key x) xs = Some x"
proof (induction xs arbitrary: seen)
  case Nil
  then show ?case by simp
next
  case (Cons a xs)
  show ?case
  proof (cases "url_key a \<in> seen")
    case True
    then have in_rest: "x \<in> set (dedup_filter seen xs)"
      using Cons.prems by (simp add: Let_def url_key_def)
    then have "url_key x \<in> set (map url_key (dedup_filter seen xs))" by simp
    then have "url_key x \<notin> seen" unfolding dedup_filter_keys by simp
    then have "url_key a \<noteq> url_key x" using True by auto
    then show ?thesis using Cons.IH[OF in_rest] by simp
  next
    case False
    then have cases: "x = a \<or> x \<in> set (dedup_filter (insert (url_key a) seen) xs)"
      using Cons.prems by (auto simp: Let_def url_key_def)
    show ?thesis
    proof (cases "x = a")
      case True
      then show ?thesis by simp
    next
      case ne: False
      then have in_rest: "x \<in> set (dedup_filter (insert (url_key a) seen) xs)"
        using cases by simp
      then have "url_key x \<in> set (map url_key (dedup_filter (insert (url_key a) seen) xs))"
        by simp
      then have "url_key x \<noteq> url_key a" unfolding dedup_filter_keys by auto
      then show ?thesis using Cons.IH[OF in_rest] by simp
    qed
  qed
qed

lemma fold_search_step:
  "\<exists>results. fold (search_step search) qs (rs, sources, called) =
      (results, sources @ concat (map (found_by search) qs), called @ qs)"
proof (induction qs arbitrary: rs sources called)
  case Nil
  show ?case by simp
next
  case (Cons q qs)
  have "\<exists>rs'. search_step search q (rs, sources, called) =
      (rs', sources @ found_by search q, called @ [q])"
    by (cases "search q") (simp_all add: search_step_def found_by_def)
  then obtain rs' where s: "search_step search q (rs, sources, called) =
      (rs', sources @ found_by search q, called @ [q])"
    by blast
  show ?case using Cons.IH[of rs' "sources @ found_by search q" "called @ [q]"] s
    by auto
qed

text \<open>
  C5. For every sequence of queries, the adapter is called once per query, in order; a
  query whose call raises contributes nothing and the batch still returns; the sources
  returned hold no two results with the same lower-cased URL, are in accumulation order,
  each being the first accumulated result with its URL, and every accumulated URL is
  kept.
\<close>

theorem executeSearches_dedup:
  "calls (executeSearches search qs) = qs
   \<and> totalSources (executeSearches search qs) = length (concat (map (found_by search) qs))
   \<and> distinct (map (\<lambda>s. toLowerCase (url s)) (allSources (executeSearches search qs)))
   \<and> subseq (allSources (executeSearches search qs)) (concat (map (found_by search) qs))
   \<and> (\<forall>x \<in> set (allSources (executeSearches search qs)).
         find (\<lambda>y. toLowerCase (url y) = toLowerCase (url x))
           (concat (map (found_by search) qs)) = Some x)
   \<and> (\<forall>y \<in> set (concat (map (found_by search) qs)).
         \<exists>x \<in> set (allSources (executeSearches search qs)).
           toLowerCase (url x) = toLowerCase (url y))"
proof -
  let ?acc = "concat (map (found_by search) qs)"
  obtain results where f: "fold (search_step search) qs ([], [], []) = (results, ?acc, qs)"
    using fold_search_step[of search qs "[]" "[]" "[]"] by auto
  then have all: "allSources (executeSearches search qs) = dedup_filter {} ?acc"
    and c: "calls (executeSearches search qs) = qs"
    and t: "totalSources (executeSearches search qs) = length ?acc"
    by (simp_all add: executeSearches_def deduplicateSources_def)
  have d: "distinct (map (\<lambda>s. toLowerCase (url s)) (dedup_filter {} ?acc))"
    using dedup_filter_distinct[of "{}" ?acc] by (simp add: url_key_def[abs_def])
  have s: "subseq (dedup_filter {} ?acc) ?acc" by (rule dedup_filter_subseq)
  have fst: "\<forall>x \<in> set (dedup_filter {} ?acc).
      find (\<lambda>y. toLowerCase (url y) = toLowerCase (url x)) ?acc = Some x"
    using dedup_filter_first[of _ "{}" ?acc] by (simp add: url_key_def)
  have cov: "\<forall>y \<in> set ?acc. \<exists>x \<in> set (dedup_filter {} ?acc).
      toLowerCase (url x) = toLowerCase (url y)"
  proof
    fix y assume "y \<in> set ?acc"
    then have "url_key y \<in> set (map url_key (dedup_filter {} ?acc))"
      unfolding dedup_filter_keys by simp
    then show "\<exists>x \<in> set (dedup_filter {} ?acc). toLowerCase (url x) = toLowerCase (url y)"
      by (auto simp: url_key_def)
  qed
  show ?thesis unfolding all c t using d s fst cov by simp
qed

lemma ex_executeSearches:
  "allSources (executeSearches ex_search [''a'', ''bad'', ''b'']) =
     [ex_source ''X'' ''http://X.org'', ex_source ''Y'' ''http://y.org'']
   \<and> totalSources (executeSearches ex_search [''a'', ''bad'', ''b'']) = 3
   \<and> concat (map (found_by ex_search) [''a'', ''bad'', ''b'']) =
     [ex_source ''X'' ''http://X.org'', ex_source ''Y'' ''http://y.org'',
      ex_source ''x again'' ''http://x.org'']"
  by code_simp

theorem executeSearches_dedup_witness:
  "calls (executeSearches ex_search [''a'', ''bad'', ''b'']) = [''a'', ''bad'', ''b'']
   \<and> allSources (executeSearches ex_search [''a'', ''bad'', ''b'']) =
       [ex_source ''X'' ''http://X.org'', ex_source ''Y'' ''http://y.org'']
   \<and> totalSources (executeSearches ex_search [''a'', ''bad'', ''b'']) = 3
   \<and> distinct (map (\<lambda>s. toLowerCase (url s))
        (allSources (executeSearches ex_search [''a'', ''bad'', ''b''])))
   \<and> find (\<lambda>y. toLowerCase (url y) = toLowerCase ''http://X.org'')
        (concat (map (found_by ex_search) [''a'', ''bad'', ''b''])) =
       Some (ex_source ''X'' ''http://X.org'')"
proof -
  note inst = executeSearches_dedup[of ex_search "[''a'', ''bad'', ''b'']"]
  have c: "calls (executeSearches ex_search [''a'', ''bad'', ''b'']) = [''a'', ''bad'', ''b'']"
    using inst by blast
  have d: "distinct (map (\<lambda>s. toLowerCase (url s))
        (allSources (executeSearches ex_search [''a'', ''bad'', ''b''])))"
    using inst by blast
  have f: "\<forall>x \<in> set (allSources (executeSearches ex_search [''a'', ''bad'', ''b''])).
      find (\<lambda>y. toLowerCase (url y) = toLowerCase (url x))
        (concat (map (found_by ex_search) [''a'', ''bad'', ''b''])) = Some x"
    using inst by blast
  have x: "ex_source ''X'' ''http://X.org''
      \<in> set (allSources (executeSearches ex_search [''a'', ''bad'', ''b'']))"
    using ex_executeSearches by simp
  have u: "url (ex_source ''X'' ''http://X.org'') = ''http://X.org''"
    by (simp add: ex_source_def)
  have "find (\<lambda>y. toLowerCase (url y) = toLowerCase ''http://X.org'')
        (concat (map (found_by ex_search) [''a'', ''bad'', ''b''])) =
       Some (ex_source ''X'' ''http://X.org'')"
    using bspec[OF f x] unfolding u .
  then show ?thesis using c d ex_executeSearches by simp
qed

section \<open>Properties of the content extractor\<close>

lemma collapse_ws_head:
  "s \<noteq> [] \<Longrightarrow> \<not> is_space (hd s) \<Longrightarrow> collapse_ws s \<noteq> [] \<and> hd (collapse_ws s) = hd s"
  by (cases s) auto

lemma dropWhile_head: "dropWhile P s \<noteq> [] \<Longrightarrow> \<not> P (hd (dropWhile P s))"
  using hd_dropWhile by blast

lemma collapsed_Cons:
  "collapsed (c # s) \<longleftrightarrow>
     (is_space c \<longrightarrow> c = CHR '' '' \<and> (s \<noteq> [] \<longrightarrow> \<not> is_space (hd s))) \<and> collapsed s"
  by (cases s) auto

lemma collapsed_collapse_ws: "collapsed (collapse_ws s)"
proof (induction s rule: collapse_ws.induct)
  case 1
  show ?case by simp
next
  case (2 c cs)
  show ?case
  proof (cases "is_space c")
    case True
    let ?r = "dropWhile is_space cs"
    have "collapse_ws ?r \<noteq> [] \<longrightarrow> \<not> is_space (hd (collapse_ws ?r))"
    proof (cases "?r = []")
      case True
      have "collapse_ws [] = []" by simp
      then show ?thesis unfolding True by simp
    next
      case False
      then have "\<not> is_space (hd ?r)" by (rule dropWhile_head)
      then show ?thesis using collapse_ws_head[OF False] by simp
    qed
    then show ?thesis using True 2 by (simp add: collapsed_Cons)
  next
    case False
    then show ?thesis using 2 by (simp add: collapsed_Cons)
  qed
qed

lemma collapsed_tl: "collapsed (c # s) \<Longrightarrow> collapsed s"
  by (simp add: collapsed_Cons)

lemma collapsed_drop: "collapsed s \<Longrightarrow> collapsed (drop n s)"
proof (induction n arbitrary: s)
  case 0
  then show ?case by simp
next
  case (Suc n)
  then show ?case by (cases s) (auto dest: collapsed_tl)
qed

lemma collapsed_take: "collapsed s \<Longrightarrow> collapsed (take n s)"
proof (induction s arbitrary: n)
  case Nil
  then show ?case by simp
next
  case (Cons c s)
  show ?case
  proof (cases n)
    case 0
    then show ?thesis by simp
  next
    case (Suc m)
    have "collapsed (take m s)" using Cons by (simp add: collapsed_Cons)
    moreover have "take m s \<noteq> [] \<Longrightarrow> hd (take m s) = hd s"
      by (cases s; cases m) auto
    moreover have "take m s \<noteq> [] \<Longrightarrow> s \<noteq> []" by auto
    ultimately show ?thesis using Cons.prems Suc
      by (auto simp: collapsed_Cons)
  qed
qed

lemma js_trim_take_drop: "\<exists>m k. js_trim s = take m (drop k s)"
proof -
  let ?t = "dropWhile is_space s"
  have t: "?t = drop (length (takeWhile is_space s)) s"
    by (rule dropWhile_eq_drop)
  have "rev (dropWhile is_space (rev ?t)) =
      rev (drop (length (takeWhile is_space (rev ?t))) (rev ?t))"
    by (simp add: dropWhile_eq_drop)
  also have "\<dots> = take (length ?t - length (takeWhile is_space (rev ?t))) ?t"
    by (simp add: rev_drop)
  finally show ?thesis unfolding js_trim_def using t by metis
qed

lemma collapsed_js_trim: "collapsed s \<Longrightarrow> collapsed (js_trim s)"
  using js_trim_take_drop[of s] collapsed_take collapsed_drop by metis

lemma clean_text:
  assumes "0 \<le> cap"
  shows "length (js_slice0 cap (js_trim (collapse_ws raw))) \<le> nat cap"
    and "collapsed (js_slice0 cap (js_trim (collapse_ws raw)))"
  using assms collapsed_take[OF collapsed_js_trim[OF collapsed_collapse_ws[of raw]]]
  by (simp_all add: js_slice0_def)

lemma clean_page_props:
  assumes "0 \<le> cap"
  shows "\<exists>t. clean_page env removed main cap u = Inr t \<and> length t \<le> nat cap \<and> collapsed t
    \<and> (case fetch_page env u of
          Inl error \<Rightarrow> t = []
        | Inr res \<Rightarrow>
            (\<not> ok res \<or> \<not> js_includes (str_or (content_type res) []) ''text/html''
               \<longrightarrow> t = []))"
  using clean_text[OF assms]
  by (auto simp: clean_page_def split: sum.splits)

text \<open>
  C7. For every URL, both variants of the extractor return a text and never raise. The
  text is empty when the fetch fails (a timeout aborts it), when the status is not a
  success and when the content type is not HTML. Every text returned has collapsed white
  space and at most 20000 characters (core variant) or 15000 (legacy variant), the caps
  the source fixes.
\<close>

theorem fetchAndClean_total:
  "(\<exists>t. fetchAndClean env u = Inr t \<and> length t \<le> 20000 \<and> collapsed t
      \<and> (case fetch_page env u of
            Inl error \<Rightarrow> t = []
          | Inr res \<Rightarrow>
              (\<not> ok res \<or> \<not> js_includes (str_or (content_type res) []) ''text/html''
                 \<longrightarrow> t = [])))
   \<and> (\<exists>t. fetchAndClean_legacy env u = Inr t \<and> length t \<le> 15000 \<and> collapsed t
      \<and> (case fetch_page env u of
            Inl error \<Rightarrow> t = []
          | Inr res \<Rightarrow>
              (\<not> ok res \<or> \<not> js_includes (str_or (content_type res) []) ''text/html''
                 \<longrightarrow> t = [])))"
  using clean_page_props[of 20000 env _ _ u] clean_page_props[of 15000 env _ _ u]
  unfolding fetchAndClean_def fetchAndClean_legacy_def
  by simp

lemma ex_fetch_page:
  "fetch_page ex_page_env ''http://timeout'' =
     Inl (JsError ''AbortError'' ''This operation was aborted'')
   \<and> fetch_page ex_page_env ''http://missing'' =
     Inr \<lparr>ok = False, content_type = Some ''text/html'', body = Inr ''<p>no</p>''\<rparr>
   \<and> fetch_page ex_page_env ''http://pdf'' =
     Inr \<lparr>ok = True, content_type = Some ''application/pdf'', body = Inr ''%PDF''\<rparr>"
  by (simp add: ex_page_env_def)

lemma ex_clean: "js_trim (collapse_ws ('' a'' @ [newline, newline] @ ''b   c  '')) = ''a b c''"
  by code_simp

lemma ex_html: "js_includes ''text/html; charset=utf-8'' ''text/html''"
  by code_simp

lemma ex_slice: "js_slice0 20000 ''a b c'' = ''a b c'' \<and> js_slice0 15000 ''a b c'' = ''a b c''"
  by (simp add: js_slice0_def)

lemma ex_page:
  "fetch_page ex_page_env ''http://page'' =
     Inr \<lparr>ok = True, content_type = Some ''text/html; charset=utf-8'',
          body = Inr ''<main> a  b </main>''\<rparr>"
  by code_simp

lemma ex_cheerio:
  "cheerio_text ex_page_env removed main html = Inr ('' a'' @ [newline, newline] @ ''b   c  '')"
  by (simp add: ex_page_env_def)

lemma ex_fetchAndClean:
  "fetchAndClean ex_page_env ''http://page'' = Inr ''a b c''
   \<and> fetchAndClean_legacy ex_page_env ''http://page'' = Inr ''a b c''"
  unfolding fetchAndClean_def fetchAndClean_legacy_def clean_page_def ex_page ex_cheerio
  by (simp only: ex_clean ex_slice ex_html str_or_def sum.case option.case http_response.simps
      if_True if_False not_True_eq_False list.distinct simp_thms)

lemma ex_collapsed: "collapsed ''a b c'' \<and> \<not> js_includes ''application/pdf'' ''text/html''"
  by code_simp

theorem fetchAndClean_total_witness:
  "fetch_page ex_page_env ''http://timeout'' =
     Inl (JsError ''AbortError'' ''This operation was aborted'')
   \<and> fetchAndClean ex_page_env ''http://timeout'' = Inr []
   \<and> fetchAndClean_legacy ex_page_env ''http://timeout'' = Inr []
   \<and> fetchAndClean ex_page_env ''http://missing'' = Inr []
   \<and> fetchAndClean ex_page_env ''http://pdf'' = Inr []
   \<and> fetchAndClean ex_page_env ''http://page'' = Inr ''a b c''
   \<and> collapsed ''a b c''"
proof -
  have "fetchAndClean ex_page_env ''http://timeout'' = Inr []"
    and "fetchAndClean_legacy ex_page_env ''http://timeout'' = Inr []"
    using fetchAndClean_total[of ex_page_env "''http://timeout''"] ex_fetch_page
    by auto
  moreover have "fetchAndClean ex_page_env ''http://missing'' = Inr []"
    using fetchAndClean_total[of ex_page_env "''http://missing''"] ex_fetch_page
    by auto
  moreover have "fetchAndClean ex_page_env ''http://pdf'' = Inr []"
    using fetchAndClean_total[of ex_page_env "''http://pdf''"] ex_fetch_page ex_collapsed
    by (auto simp: str_or_def)
  ultimately show ?thesis using ex_fetch_page ex_fetchAndClean ex_collapsed by simp
qed

section \<open>Properties of the search-backend adapter\<close>


























section \<open>Properties of the query parser\<close>

































end
